theory Spec2Isabelle
  imports Complex_Main "HOL-Library.Sublist"
begin

section \<open>Strings and the Go library functions the chunker calls\<close>

text \<open>
  A Go string is a sequence of bytes; \<open>len\<close>, indexing and slicing work on bytes. It is
  modelled as \<^typ>\<open>string\<close>, a list of 8-bit characters, and \<open>byte\<close> reads a character
  as a number.
\<close>

definition byte :: "char \<Rightarrow> nat" where
  "byte c = of_char c"

text \<open>
  \<open>utf8.RuneCountInString\<close>: the table \<open>first\<close> gives, for a leading byte, the width of
  the sequence in its low three bits and the index of the range accepted for the second
  byte in its high four bits; \<open>0xF1\<close> marks an invalid leading byte and \<open>0xF0\<close> ASCII.
  An invalid or truncated sequence counts as one rune of width one.
\<close>

definition RuneSelf :: nat where
  "RuneSelf = 0x80"

definition locb :: nat where
  "locb = 0x80"

definition hicb :: nat where
  "hicb = 0xBF"

definition first :: "nat \<Rightarrow> nat" where
  "first c =
     (if c < 0x80 then 0xF0
      else if c < 0xC2 then 0xF1
      else if c < 0xE0 then 0x02
      else if c = 0xE0 then 0x13
      else if c < 0xED then 0x03
      else if c = 0xED then 0x23
      else if c < 0xF0 then 0x03
      else if c = 0xF0 then 0x34
      else if c < 0xF4 then 0x04
      else if c = 0xF4 then 0x44
      else 0xF1)"

definition acceptRanges :: "nat \<Rightarrow> nat \<times> nat" where
  "acceptRanges k =
     (if k = 0 then (locb, hicb)
      else if k = 1 then (0xA0, hicb)
      else if k = 2 then (locb, 0x9F)
      else if k = 3 then (0x90, hicb)
      else if k = 4 then (locb, 0x8F)
      else (0, 0))"

text \<open>The number of bytes one iteration of the counting loop consumes at the head of \<open>s\<close>.\<close>

definition runeWidth :: "string \<Rightarrow> nat" where
  "runeWidth s =
     (let c = byte (s ! 0) in
      if c < RuneSelf then 1
      else
        let x = first c in
        if x = 0xF1 then 1
        else
          let size = x mod 8 in
          if length s < size then 1
          else
            let (lo, hi) = acceptRanges (x div 16) in
            if byte (s ! 1) < lo \<or> hi < byte (s ! 1) then 1
            else if size = 2 then 2
            else if byte (s ! 2) < locb \<or> hicb < byte (s ! 2) then 1
            else if size = 3 then 3
            else if byte (s ! 3) < locb \<or> hicb < byte (s ! 3) then 1
            else size)"

fun RuneCountInString :: "string \<Rightarrow> nat" where
  "RuneCountInString [] = 0"
| "RuneCountInString (c # cs) = Suc (RuneCountInString (drop (runeWidth (c # cs) - 1) cs))"

text \<open>
  \<open>strings.Index\<close>, \<open>strings.Split\<close> and \<open>strings.Join\<close>. \<open>Split\<close> cuts at the
  successive leftmost occurrences of the separator; with an empty separator it cuts
  after every UTF-8 sequence. \<open>Index\<close> is \<open>None\<close> where Go returns \<open>-1\<close>.
\<close>

fun Index :: "string \<Rightarrow> string \<Rightarrow> nat option" where
  "Index [] sep = (if sep = [] then Some 0 else None)"
| "Index (c # cs) sep =
     (if prefix sep (c # cs) then Some 0 else map_option Suc (Index cs sep))"

fun explode :: "string \<Rightarrow> string list" where
  "explode [] = []"
| "explode (c # cs) =
     take (runeWidth (c # cs)) (c # cs) # explode (drop (runeWidth (c # cs) - 1) cs)"

function Split :: "string \<Rightarrow> string \<Rightarrow> string list" where
  "Split s sep =
     (if sep = [] then explode s
      else case Index s sep of
             None \<Rightarrow> [s]
           | Some m \<Rightarrow> take m s # Split (drop (m + length sep) s) sep)"
  by pat_completeness auto
termination
proof (relation "measure (\<lambda>(s, sep). length s)")
  show "wf (measure (\<lambda>(s, sep). length s))"
    by simp
next
  fix s sep :: string and m :: nat
  assume sep: "sep \<noteq> []" and idx: "Index s sep = Some m"
  have "\<And>k. Index t sep = Some k \<Longrightarrow> k + length sep \<le> length t" for t
  proof (induction t)
    case Nil
    then show ?case by (simp split: if_splits)
  next
    case (Cons a t)
    then show ?case
      by (auto split: if_splits dest: prefix_length_le)
  qed
  with idx have "m + length sep \<le> length s"
    by blast
  with sep show "((drop (m + length sep) s, sep), (s, sep)) \<in> measure (\<lambda>(s, sep). length s)"
    by (cases sep) auto
qed

declare Split.simps [simp del]

fun Join :: "string list \<Rightarrow> string \<Rightarrow> string" where
  "Join [] sep = []"
| "Join [x] sep = x"
| "Join (x # y # ys) sep = x @ sep @ Join (y # ys) sep"

text \<open>
  \<open>strings.TrimSpace\<close> removes the leading and the trailing runes for which
  \<open>unicode.IsSpace\<close> holds: tab, line feed, vertical tab, form feed, carriage return,
  space, U+0085, U+00A0, U+1680, U+2000 to U+200A, U+2028, U+2029, U+202F, U+205F and
  U+3000. The decoder accepts a rune only in its shortest UTF-8 form, so a space rune
  stands at the head (the end) of a string exactly when its encoding is a prefix (a
  suffix) of the bytes; \<open>spaceEncodings\<close> lists these encodings.
\<close>

definition spaceEncodings :: "string list" where
  "spaceEncodings =
     [[CHR 0x09], [CHR 0x0A], [CHR 0x0B], [CHR 0x0C], [CHR 0x0D], [CHR 0x20],
      [CHR 0xC2, CHR 0x85], [CHR 0xC2, CHR 0xA0],
      [CHR 0xE1, CHR 0x9A, CHR 0x80],
      [CHR 0xE2, CHR 0x80, CHR 0x80], [CHR 0xE2, CHR 0x80, CHR 0x81],
      [CHR 0xE2, CHR 0x80, CHR 0x82], [CHR 0xE2, CHR 0x80, CHR 0x83],
      [CHR 0xE2, CHR 0x80, CHR 0x84], [CHR 0xE2, CHR 0x80, CHR 0x85],
      [CHR 0xE2, CHR 0x80, CHR 0x86], [CHR 0xE2, CHR 0x80, CHR 0x87],
      [CHR 0xE2, CHR 0x80, CHR 0x88], [CHR 0xE2, CHR 0x80, CHR 0x89],
      [CHR 0xE2, CHR 0x80, CHR 0x8A],
      [CHR 0xE2, CHR 0x80, CHR 0xA8], [CHR 0xE2, CHR 0x80, CHR 0xA9],
      [CHR 0xE2, CHR 0x80, CHR 0xAF], [CHR 0xE2, CHR 0x81, CHR 0x9F],
      [CHR 0xE3, CHR 0x80, CHR 0x80]]"

definition leadingSpace :: "string \<Rightarrow> nat" where
  "leadingSpace s = (case find (\<lambda>e. prefix e s) spaceEncodings of None \<Rightarrow> 0 | Some e \<Rightarrow> length e)"

definition trailingSpace :: "string \<Rightarrow> nat" where
  "trailingSpace s = (case find (\<lambda>e. suffix e s) spaceEncodings of None \<Rightarrow> 0 | Some e \<Rightarrow> length e)"

function TrimLeft :: "string \<Rightarrow> string" where
  "TrimLeft s =
     (if 0 < leadingSpace s then TrimLeft (drop (leadingSpace s) s) else s)"
  by pat_completeness auto
termination
proof (relation "measure length")
  show "wf (measure length)"
    by simp
next
  fix s :: string
  assume "0 < leadingSpace s"
  then have "s \<noteq> []"
    by (auto simp: leadingSpace_def spaceEncodings_def)
  with \<open>0 < leadingSpace s\<close> show "(drop (leadingSpace s) s, s) \<in> measure length"
    by simp
qed

declare TrimLeft.simps [simp del]

function TrimRight :: "string \<Rightarrow> string" where
  "TrimRight s =
     (if 0 < trailingSpace s then TrimRight (take (length s - trailingSpace s) s) else s)"
  by pat_completeness auto
termination
proof (relation "measure length")
  show "wf (measure length)"
    by simp
next
  fix s :: string
  assume "0 < trailingSpace s"
  then have "s \<noteq> []"
    by (auto simp: trailingSpace_def spaceEncodings_def)
  with \<open>0 < trailingSpace s\<close> show "(take (length s - trailingSpace s) s, s) \<in> measure length"
    by simp
qed

declare TrimRight.simps [simp del]

definition TrimSpace :: "string \<Rightarrow> string" where
  "TrimSpace s = TrimRight (TrimLeft s)"

section \<open>The token estimate (tokenizer.go)\<close>

text \<open>
  \<open>CountTokens\<close> computes \<open>int(float64(charCount) / 4.0)\<close> and then
  \<open>int(float64(tokenEstimate) * 1.1)\<close>. Both conversions truncate a non-negative
  value. Division of an integer below \<open>2^53\<close> by the power of two \<open>4.0\<close> is exact in
  binary floating point, and the product with the double nearest to \<open>1.1\<close> truncates to
  \<open>tokenEstimate * 11 div 10\<close> for every estimate below \<open>2^40\<close>, so the function is
  written with the integer operations it computes. \<open>charsPerToken\<close> is the constant
  \<open>4.0\<close> that \<open>NewTokenCounter\<close>, the only constructor, stores.
\<close>

definition CountTokens :: "string \<Rightarrow> int" where
  "CountTokens text =
     (if text = [] then 0
      else
        let charCount = int (RuneCountInString text);
            tokenEstimate = charCount div 4
        in (tokenEstimate * 11) div 10)"

record Chunker =
  maxTokens :: int

definition NewChunker :: "int \<Rightarrow> Chunker" where
  "NewChunker n = \<lparr> maxTokens = n \<rparr>"

text \<open>Go's integer division truncates toward zero and panics on a zero divisor.\<close>

datatype panic = DivideByZero | SliceOutOfRange

definition go_quot :: "int \<Rightarrow> int \<Rightarrow> int" where
  "go_quot a b = sgn a * sgn b * (\<bar>a\<bar> div \<bar>b\<bar>)"

definition GetEstimatedChunkCount :: "Chunker \<Rightarrow> string \<Rightarrow> panic + int" where
  "GetEstimatedChunkCount c text =
     (let totalTokens = CountTokens text in
      if totalTokens \<le> maxTokens c then Inr 1
      else if maxTokens c = 0 then Inl DivideByZero
      else Inr (go_quot (totalTokens + maxTokens c - 1) (maxTokens c)))"

section \<open>The chunker (tokenizer.go)\<close>

text \<open>
  \<open>tryBoundary\<close>: the loop over the parts keeps the text accumulated so far in
  \<open>current\<close> and the number of parts it holds in \<open>used\<close>.
\<close>

fun tryBoundary_loop ::
  "Chunker \<Rightarrow> string \<Rightarrow> string \<Rightarrow> string list \<Rightarrow> nat \<Rightarrow> string \<Rightarrow> nat \<Rightarrow> string list
     \<Rightarrow> string \<times> string" where
  "tryBoundary_loop c text boundary parts i current used [] = (current, [])"
| "tryBoundary_loop c text boundary parts i current used (part # rest) =
     (let candidate = current @ (if 0 < i then boundary else []) @ part in
      if maxTokens c < CountTokens candidate then
        (if used = 0 then ([], text)
         else (current, Join (drop used parts) boundary))
      else tryBoundary_loop c text boundary parts (i + 1) candidate (i + 1) rest)"

definition tryBoundary :: "Chunker \<Rightarrow> string \<Rightarrow> string \<Rightarrow> string \<times> string" where
  "tryBoundary c text boundary =
     (let parts = Split text boundary in
      if length parts \<le> 1 then ([], text)
      else tryBoundary_loop c text boundary parts 0 [] 0 parts)"

definition boundaries :: "string list" where
  "boundaries =
     [[CHR 0x0A, CHR 0x0A, CHR 0x0A], [CHR 0x0A, CHR 0x0A], [CHR 0x0A],
      ''. '', ''? '', ''! '', '', '', '' '']"

fun findOptimalChunk_loop ::
  "Chunker \<Rightarrow> string \<Rightarrow> string \<times> string \<Rightarrow> string list \<Rightarrow> string \<times> string" where
  "findOptimalChunk_loop c text best [] = best"
| "findOptimalChunk_loop c text (bestChunk, bestRemaining) (boundary # bs) =
     (let (chunk, rest) = tryBoundary c text boundary in
      if chunk \<noteq> [] \<and> length bestChunk < length chunk
      then findOptimalChunk_loop c text (chunk, rest) bs
      else findOptimalChunk_loop c text (bestChunk, bestRemaining) bs)"

definition findOptimalChunk :: "Chunker \<Rightarrow> string \<Rightarrow> string \<times> string" where
  "findOptimalChunk c text =
     (if CountTokens text \<le> maxTokens c then (text, [])
      else findOptimalChunk_loop c text ([], text) boundaries)"

text \<open>
  \<open>forceSplit\<close>: \<open>charLimit\<close> is \<open>int(float64(maxTokens) * 4.0 * 0.8)\<close>, the
  truncation of \<open>3.2 * maxTokens\<close>. \<open>walkBack\<close> is the loop that moves the cut point
  back to a space, a line feed or a tab; slicing at a negative cut point panics.
\<close>

definition charLimit :: "Chunker \<Rightarrow> int" where
  "charLimit c = go_quot (32 * maxTokens c) 10"

fun walkBack :: "string \<Rightarrow> nat \<Rightarrow> nat" where
  "walkBack text 0 = 0"
| "walkBack text (Suc k) =
     (if Suc k < length text then
        (if text ! Suc k = CHR '' '' \<or> text ! Suc k = CHR 0x0A \<or> text ! Suc k = CHR 0x09
         then Suc k else walkBack text k)
      else Suc k)"

definition forceSplit :: "Chunker \<Rightarrow> string \<Rightarrow> panic + string \<times> string" where
  "forceSplit c text =
     (if int (length text) \<le> charLimit c then Inr (text, [])
      else if charLimit c < 0 then Inl SliceOutOfRange
      else
        let cutPoint = walkBack text (nat (charLimit c));
            cutPoint = (if cutPoint = 0 then nat (charLimit c) else cutPoint)
        in Inr (take cutPoint text, TrimSpace (drop cutPoint text)))"

text \<open>
  \<open>ChunkText\<close>: the loop runs while the remainder is non-empty and over the budget.
  It is a partial function: \<open>None\<close> stands for a run that never returns, \<open>Inl\<close> for a
  panic. The error result of the Go function is always \<open>nil\<close> and is left out.
\<close>

partial_function (option) ChunkText_loop ::
  "Chunker \<Rightarrow> string \<Rightarrow> string list \<Rightarrow> (panic + string list \<times> string) option" where
  "ChunkText_loop c remaining chunks =
     (if 0 < length remaining \<and> maxTokens c < CountTokens remaining then
        (case findOptimalChunk c remaining of
           (chunk, rest) \<Rightarrow>
             if chunk = [] then
               (case forceSplit c remaining of
                  Inl p \<Rightarrow> Some (Inl p)
                | Inr (chunk', rest') \<Rightarrow> ChunkText_loop c rest' (chunks @ [chunk']))
             else ChunkText_loop c rest (chunks @ [chunk]))
      else Some (Inr (chunks, remaining)))"

declare ChunkText_loop.simps [code]

definition ChunkText :: "Chunker \<Rightarrow> string \<Rightarrow> (panic + string list) option" where
  "ChunkText c text =
     (let totalTokens = CountTokens text in
      if totalTokens \<le> maxTokens c then Some (Inr [text])
      else
        case ChunkText_loop c text [] of
          None \<Rightarrow> None
        | Some (Inl p) \<Rightarrow> Some (Inl p)
        | Some (Inr (chunks, remaining)) \<Rightarrow>
            if 0 < length (TrimSpace remaining) then Some (Inr (chunks @ [remaining]))
            else Some (Inr chunks))"

section \<open>The completion provider (llm/client.go)\<close>

text \<open>
  The merger and the validator reach the provider only through the interface method
  \<open>Complete(ctx, prompt, options)\<close>. A client is modelled as a function of its own state
  \<open>'s\<close> that returns a response or an error \<open>'e\<close> together with its next state; the
  context argument carries no data and is left out. \<open>Complete\<close> runs one call and
  appends it, with its outcome, to the log of calls, so that the calls a function issues
  are the entries it adds to the log.
\<close>

record TokenUsage =
  PromptTokens :: int
  CompletionTokens :: int
  TotalTokens :: int

record CompletionResponse =
  Content :: string
  TokensUsed :: TokenUsage
  Duration :: int
  Model :: string

record CompletionOptions =
  ForceJSON :: bool

type_synonym ('s, 'e) llmClient =
  "'s \<Rightarrow> string \<Rightarrow> CompletionOptions \<Rightarrow> ('e + CompletionResponse) \<times> 's"

type_synonym 'e call = "string \<times> CompletionOptions \<times> ('e + CompletionResponse)"

type_synonym ('s, 'e) world = "'s \<times> 'e call list"

definition Complete ::
  "('s, 'e) llmClient \<Rightarrow> string \<Rightarrow> CompletionOptions \<Rightarrow> ('s, 'e) world
     \<Rightarrow> ('e + CompletionResponse) \<times> ('s, 'e) world" where
  "Complete cl prompt opts w =
     (case w of (s, calls) \<Rightarrow>
        (case cl s prompt opts of (r, s') \<Rightarrow> (r, (s', calls @ [(prompt, opts, r)]))))"

text \<open>
  \<open>MockClient\<close>, the client of the test command: it answers every prompt with the
  first response loaded into it, or with \<open>Mock response\<close> when none is loaded, and
  never fails. Its state is the list of loaded responses in the order the iteration over
  the map visits them.
\<close>

definition MockClient_Complete :: "string \<Rightarrow> (string list, 'e) llmClient" where
  "MockClient_Complete model responses userPrompt opts =
     (let response = (case responses of [] \<Rightarrow> ''Mock response'' | resp # _ \<Rightarrow> resp) in
      (Inr \<lparr> Content = response,
             TokensUsed = \<lparr> PromptTokens = 100, CompletionTokens = 50, TotalTokens = 150 \<rparr>,
             Duration = 100000000, Model = model \<rparr>,
       responses))"

text \<open>
  Errors are values. Each constructor stands for one \<open>fmt.Errorf\<close> of the source and
  keeps the error it wraps; \<open>ProviderError\<close> is an error returned by the client and
  \<open>IndexOutOfRange\<close> a run-time panic.
\<close>

datatype 'e error =
    ProviderError 'e
  | NoChunksToProcess
  | UnknownMergeStrategy string
  | ExtractionFailed "'e error"
  | MergeFailed "'e error"
  | ConsolidationFailed "'e error"
  | FailedFirstChunk "'e error"
  | FailedMergeChunk int "'e error"
  | FailedProcessChunk int "'e error"
  | InitialCompletionFailed "'e error"
  | RetryAttemptFailed int "'e error"
  | ValidationFailedAfter int
  | IndexOutOfRange

text \<open>\<open>fmt.Sprintf("%d", n)\<close>: the decimal digits of an integer.\<close>

definition digitChars :: string where
  "digitChars = ''0123456789''"

function digits :: "nat \<Rightarrow> string" where
  "digits n =
     (if n < 10 then [digitChars ! n] else digits (n div 10) @ [digitChars ! (n mod 10)])"
  by pat_completeness auto
termination
  by (relation "measure id") auto

declare digits.simps [simp del]

definition formatInt :: "int \<Rightarrow> string" where
  "formatInt i = (if i < 0 then ''-'' @ digits (nat (- i)) else digits (nat i))"

section \<open>The merge engine (merger.go)\<close>

definition StrategyIncremental :: string where
  "StrategyIncremental = ''incremental''"

definition StrategyTwoPass :: string where
  "StrategyTwoPass = ''two-pass''"

definition StrategyTemplateDriven :: string where
  "StrategyTemplateDriven = ''template-driven''"

record MergeOptions =
  Strategy :: string
  Instructions :: string
  MaxRetries :: int
  ShowStats :: bool

record 'e ChunkResult =
  ChunkIndex :: int
  ResultContent :: string
  JSONData :: string
  Stats :: CompletionResponse
  Error :: "'e error option"

text \<open>Of \<open>specs.Spec\<close> the merger reads the slug, the title and the schema text.\<close>

record Spec =
  Slug :: string
  Title :: string
  Schema :: string

record ('s, 'e) Merger =
  spec :: Spec
  client :: "('s, 'e) llmClient"
  options :: MergeOptions

definition NewMerger :: "Spec \<Rightarrow> ('s, 'e) llmClient \<Rightarrow> MergeOptions \<Rightarrow> ('s, 'e) Merger" where
  "NewMerger sp cl opts = \<lparr> spec = sp, client = cl, options = opts \<rparr>"

definition schemaTitle :: "('s, 'e) Merger \<Rightarrow> string" where
  "schemaTitle m = (if Title (spec m) = [] then Slug (spec m) else Title (spec m))"

definition createExtractionPrompt :: "('s, 'e) Merger \<Rightarrow> string \<Rightarrow> string" where
  \<open>createExtractionPrompt m chunk =
     ''Extract structured data from the following input according to the "'' @ schemaTitle m @
     ''" specification.\<newline>\<newline>Instructions:\<newline>'' @
     ''- Extract only information that is explicitly present in this chunk\<newline>'' @
     ''- Do not invent or infer information not directly stated\<newline>'' @
     ''- Leave fields empty/null if the information is not available in this chunk\<newline>'' @
     ''- Follow the JSON schema structure exactly\<newline>'' @
     ''- This is part of a larger document, so partial information is expected\<newline>'' @
     ''\<newline>Input:\<newline>'' @ chunk @
     ''\<newline>\<newline>JSON Schema Reference:\<newline>'' @ Schema (spec m) @
     ''\<newline>\<newline>Provide the extracted data as valid JSON:''\<close>

text \<open>The two default instruction texts are the literals the prompt builders assign.\<close>

definition defaultMergeInstructions :: string where
  "defaultMergeInstructions =
     ''Merge the new data with the existing data:\<newline>'' @
     ''- Combine arrays by appending new items\<newline>'' @
     ''- Update object fields with new information\<newline>'' @
     ''- Preserve existing data when not conflicted\<newline>'' @
     ''- Use new data to fill in missing fields\<newline>'' @
     ''- When data conflicts, prefer the new data''"

definition defaultConsolidationInstructions :: string where
  "defaultConsolidationInstructions =
     ''Consolidate all the partial results into a single comprehensive result:\<newline>'' @
     ''- Merge arrays by combining all items\<newline>'' @
     ''- Merge objects by combining all fields\<newline>'' @
     ''- Remove duplicates where appropriate\<newline>'' @
     ''- Ensure the final result follows the schema structure''"

text \<open>
  The format strings of \<open>createMergePrompt\<close> and \<open>createConsolidationPrompt\<close>, as
  functions of the arguments \<open>fmt.Sprintf\<close> puts in place of each \<open>%s\<close>.
\<close>

definition mergePromptFormat :: "string \<Rightarrow> string \<Rightarrow> string \<Rightarrow> string \<Rightarrow> string \<Rightarrow> string" where
  \<open>mergePromptFormat a1 a2 a3 a4 a5 =
     ''You have existing extracted data and a new chunk of text to process. '' @
     ''Merge the new information with the existing data according to the "'' @
     a1 @ ''" specification.\<newline>\<newline>'' @ a2 @
     ''\<newline>\<newline>Existing extracted data:\<newline>'' @ a3 @
     ''\<newline>\<newline>New chunk to merge:\<newline>'' @ a4 @
     ''\<newline>\<newline>JSON Schema Reference:\<newline>'' @ a5 @
     ''\<newline>\<newline>Provide the merged result as valid JSON that follows the schema:''\<close>

definition consolidationPromptFormat :: "string \<Rightarrow> string \<Rightarrow> string \<Rightarrow> string" where
  "consolidationPromptFormat a1 a2 a3 =
     ''Consolidate the following partial extraction results into a single '' @
     ''comprehensive result.\<newline>\<newline>'' @ a1 @
     ''\<newline>\<newline>Partial results to consolidate:\<newline>'' @ a2 @
     ''\<newline>\<newline>JSON Schema Reference:\<newline>'' @ a3 @
     ''\<newline>\<newline>Provide the consolidated result as valid JSON:''"

definition createMergePrompt :: "('s, 'e) Merger \<Rightarrow> string \<Rightarrow> string \<Rightarrow> string" where
  "createMergePrompt m previousJSON newChunk =
     (let instructions = Instructions (options m);
          instructions = (if instructions = [] then defaultMergeInstructions else instructions)
      in mergePromptFormat (schemaTitle m) instructions previousJSON newChunk (Schema (spec m)))"

fun resultsStr :: "int \<Rightarrow> string list \<Rightarrow> string" where
  "resultsStr i [] = []"
| "resultsStr i (result # rest) =
     ''Result '' @ formatInt (i + 1) @ '':\<newline>'' @ result @ ''\<newline>\<newline>'' @
     resultsStr (i + 1) rest"

definition createConsolidationPrompt :: "('s, 'e) Merger \<Rightarrow> string list \<Rightarrow> string" where
  "createConsolidationPrompt m jsonResults =
     (let instructions = Instructions (options m);
          instructions =
            (if instructions = [] then defaultConsolidationInstructions else instructions)
      in consolidationPromptFormat instructions (resultsStr 0 jsonResults) (Schema (spec m)))"

definition processSingleChunk ::
  "('s, 'e) Merger \<Rightarrow> string \<Rightarrow> int \<Rightarrow> ('s, 'e) world
     \<Rightarrow> ('e error + 'e ChunkResult) \<times> ('s, 'e) world" where
  "processSingleChunk m chunk index w =
     (let prompt = createExtractionPrompt m chunk in
      case Complete (client m) prompt \<lparr> ForceJSON = True \<rparr> w of
        (Inl err, w') \<Rightarrow> (Inl (ExtractionFailed (ProviderError err)), w')
      | (Inr response, w') \<Rightarrow>
          (Inr \<lparr> ChunkIndex = index, ResultContent = chunk, JSONData = Content response,
                 Stats = response, Error = None \<rparr>, w'))"

definition mergeWithPrevious ::
  "('s, 'e) Merger \<Rightarrow> string \<Rightarrow> string \<Rightarrow> int \<Rightarrow> ('s, 'e) world
     \<Rightarrow> ('e error + 'e ChunkResult) \<times> ('s, 'e) world" where
  "mergeWithPrevious m previousJSON newChunk chunkIndex w =
     (let prompt = createMergePrompt m previousJSON newChunk in
      case Complete (client m) prompt \<lparr> ForceJSON = True \<rparr> w of
        (Inl err, w') \<Rightarrow> (Inl (MergeFailed (ProviderError err)), w')
      | (Inr response, w') \<Rightarrow>
          (Inr \<lparr> ChunkIndex = chunkIndex, ResultContent = newChunk,
                 JSONData = Content response, Stats = response, Error = None \<rparr>, w'))"

definition mergeAllResults ::
  "('s, 'e) Merger \<Rightarrow> 'e ChunkResult list \<Rightarrow> ('s, 'e) world
     \<Rightarrow> ('e error + 'e ChunkResult) \<times> ('s, 'e) world" where
  "mergeAllResults m results w =
     (if length results = 1 then (Inr (results ! 0), w)
      else
        let jsonResults = map JSONData results;
            prompt = createConsolidationPrompt m jsonResults
        in
          case Complete (client m) prompt \<lparr> ForceJSON = True \<rparr> w of
            (Inl err, w') \<Rightarrow> (Inl (ConsolidationFailed (ProviderError err)), w')
          | (Inr response, w') \<Rightarrow>
              (Inr \<lparr> ChunkIndex = - 1, ResultContent = ''consolidated'',
                     JSONData = Content response, Stats = response, Error = None \<rparr>, w'))"

definition mergeByTemplate ::
  "('s, 'e) Merger \<Rightarrow> 'e ChunkResult list \<Rightarrow> ('s, 'e) world
     \<Rightarrow> ('e error + 'e ChunkResult) \<times> ('s, 'e) world" where
  "mergeByTemplate m results w = mergeAllResults m results w"

text \<open>
  \<open>processIncremental\<close>: the first chunk is extracted, then the loop
  \<open>for i := 1; i < len(chunks); i++\<close> merges chunk \<open>i\<close> into the result so far.
\<close>

function processIncremental_loop ::
  "('s, 'e) Merger \<Rightarrow> string list \<Rightarrow> nat \<Rightarrow> 'e ChunkResult \<Rightarrow> ('s, 'e) world
     \<Rightarrow> ('e error + 'e ChunkResult) \<times> ('s, 'e) world" where
  "processIncremental_loop m chunks i result w =
     (if i < length chunks then
        (case mergeWithPrevious m (JSONData result) (chunks ! i) (int i) w of
           (Inl err, w') \<Rightarrow> (Inl (FailedMergeChunk (int i) err), w')
         | (Inr merged, w') \<Rightarrow> processIncremental_loop m chunks (i + 1) merged w')
      else (Inr result, w))"
  by pat_completeness auto
termination
  by (relation "measure (\<lambda>(m, chunks, i, result, w). length chunks - i)") auto

declare processIncremental_loop.simps [simp del]

definition processIncremental ::
  "('s, 'e) Merger \<Rightarrow> string list \<Rightarrow> ('s, 'e) world
     \<Rightarrow> ('e error + 'e ChunkResult) \<times> ('s, 'e) world" where
  "processIncremental m chunks w =
     (if length chunks = 0 then (Inl IndexOutOfRange, w)
      else
        case processSingleChunk m (chunks ! 0) 0 w of
          (Inl err, w') \<Rightarrow> (Inl (FailedFirstChunk err), w')
        | (Inr result, w') \<Rightarrow> processIncremental_loop m chunks 1 result w')"

text \<open>
  \<open>processTwoPass\<close> and \<open>processTemplateDriven\<close> each have their own loop
  \<open>for i, chunk := range chunks\<close> that collects the results of the chunks.
\<close>

fun processTwoPass_loop ::
  "('s, 'e) Merger \<Rightarrow> nat \<Rightarrow> 'e ChunkResult list \<Rightarrow> string list \<Rightarrow> ('s, 'e) world
     \<Rightarrow> ('e error + 'e ChunkResult list) \<times> ('s, 'e) world" where
  "processTwoPass_loop m i chunkResults [] w = (Inr chunkResults, w)"
| "processTwoPass_loop m i chunkResults (chunk # rest) w =
     (case processSingleChunk m chunk (int i) w of
        (Inl err, w') \<Rightarrow> (Inl (FailedProcessChunk (int i) err), w')
      | (Inr result, w') \<Rightarrow> processTwoPass_loop m (i + 1) (chunkResults @ [result]) rest w')"

definition processTwoPass ::
  "('s, 'e) Merger \<Rightarrow> string list \<Rightarrow> ('s, 'e) world
     \<Rightarrow> ('e error + 'e ChunkResult) \<times> ('s, 'e) world" where
  "processTwoPass m chunks w =
     (case processTwoPass_loop m 0 [] chunks w of
        (Inl err, w') \<Rightarrow> (Inl err, w')
      | (Inr chunkResults, w') \<Rightarrow>
          (case mergeAllResults m chunkResults w' of
             (Inl err, w'') \<Rightarrow> (Inl err, w'')
           | (Inr result, w'') \<Rightarrow> (Inr result, w'')))"

fun processTemplateDriven_loop ::
  "('s, 'e) Merger \<Rightarrow> nat \<Rightarrow> 'e ChunkResult list \<Rightarrow> string list \<Rightarrow> ('s, 'e) world
     \<Rightarrow> ('e error + 'e ChunkResult list) \<times> ('s, 'e) world" where
  "processTemplateDriven_loop m i chunkResults [] w = (Inr chunkResults, w)"
| "processTemplateDriven_loop m i chunkResults (chunk # rest) w =
     (case processSingleChunk m chunk (int i) w of
        (Inl err, w') \<Rightarrow> (Inl (FailedProcessChunk (int i) err), w')
      | (Inr result, w') \<Rightarrow>
          processTemplateDriven_loop m (i + 1) (chunkResults @ [result]) rest w')"

definition processTemplateDriven ::
  "('s, 'e) Merger \<Rightarrow> string list \<Rightarrow> ('s, 'e) world
     \<Rightarrow> ('e error + 'e ChunkResult) \<times> ('s, 'e) world" where
  "processTemplateDriven m chunks w =
     (case processTemplateDriven_loop m 0 [] chunks w of
        (Inl err, w') \<Rightarrow> (Inl err, w')
      | (Inr chunkResults, w') \<Rightarrow>
          (case mergeByTemplate m chunkResults w' of
             (Inl err, w'') \<Rightarrow> (Inl err, w'')
           | (Inr result, w'') \<Rightarrow> (Inr result, w'')))"

definition ProcessChunks ::
  "('s, 'e) Merger \<Rightarrow> string list \<Rightarrow> ('s, 'e) world
     \<Rightarrow> ('e error + 'e ChunkResult) \<times> ('s, 'e) world" where
  "ProcessChunks m chunks w =
     (if length chunks = 0 then (Inl NoChunksToProcess, w)
      else if length chunks = 1 then processSingleChunk m (chunks ! 0) 0 w
      else if Strategy (options m) = StrategyIncremental then processIncremental m chunks w
      else if Strategy (options m) = StrategyTwoPass then processTwoPass m chunks w
      else if Strategy (options m) = StrategyTemplateDriven then processTemplateDriven m chunks w
      else (Inl (UnknownMergeStrategy (Strategy (options m))), w))"

text \<open>
  The switch of \<open>runExtractCommand\<close> (commands.go) that turns the value of the
  \<open>--merge-strategy\<close> flag into a strategy before the merger is built.
\<close>

definition parseMergeStrategy :: "string \<Rightarrow> 'e error + string" where
  "parseMergeStrategy mergeStrategy =
     (if mergeStrategy = ''incremental'' then Inr StrategyIncremental
      else if mergeStrategy = ''two-pass'' then Inr StrategyTwoPass
      else if mergeStrategy = ''template-driven'' then Inr StrategyTemplateDriven
      else Inl (UnknownMergeStrategy mergeStrategy))"

section \<open>The validator and its repair loop (validator.go)\<close>

text \<open>
  \<open>Validate\<close> calls \<open>json.Unmarshal\<close> and the \<open>Validate\<close> method of the compiled
  schema, both outside this repository. They are parameters: \<open>unmarshal\<close> gives the
  decoded value or the decoder's error message, and the \<open>schema\<close> field of the validator
  gives the evaluation result of the schema library, \<open>None\<close> where the Go call returns
  \<open>nil\<close>.
\<close>

record ValidationError =
  Path :: string
  Message :: string

record ValidationResult =
  Valid :: bool
  Errors :: "ValidationError list"

record ('j, 'r) Validator =
  schema :: "'j \<Rightarrow> 'r option"
  specData :: string

definition Validate ::
  "(string \<Rightarrow> string + 'j) \<Rightarrow> ('j, 'r) Validator \<Rightarrow> string \<Rightarrow> ValidationResult" where
  "Validate unmarshal v data =
     (case unmarshal data of
        Inl err \<Rightarrow>
          \<lparr> Valid = False,
            Errors = [\<lparr> Path = ''root'', Message = ''Invalid JSON: '' @ err \<rparr>] \<rparr>
      | Inr jsonData \<Rightarrow>
          (case schema v jsonData of
             None \<Rightarrow> \<lparr> Valid = True, Errors = [] \<rparr>
           | Some result \<Rightarrow>
               \<lparr> Valid = False,
                 Errors = [\<lparr> Path = ''root'', Message = ''Validation failed'' \<rparr>] \<rparr>))"

definition createRepairPrompt :: "string \<Rightarrow> string \<Rightarrow> ValidationResult \<Rightarrow> string" where
  "createRepairPrompt originalPrompt invalidJSON result =
     (let errorMessages = map (\<lambda>err. ''- '' @ Path err @ '': '' @ Message err) (Errors result)
      in
        ''The previous response was invalid JSON according to the schema. Please fix the '' @
        ''following validation errors and provide a corrected JSON response:\<newline>\<newline>'' @
        ''Validation errors:\<newline>'' @ Join errorMessages ''\<newline>'' @
        ''\<newline>\<newline>Original prompt: '' @ originalPrompt @
        ''\<newline>\<newline>Invalid JSON response:\<newline>'' @ invalidJSON @
        ''\<newline>\<newline>Please provide a corrected JSON response that follows the schema exactly:'')"

text \<open>
  \<open>ValidateAndRetry\<close> returns the payload, the validation result and the error; a
  \<open>nil\<close> payload or result is \<open>None\<close>. The progress line it prints is not modelled.
\<close>

function ValidateAndRetry_loop ::
  "(string \<Rightarrow> string + 'j) \<Rightarrow> ('j, 'r) Validator \<Rightarrow> ('s, 'e) llmClient \<Rightarrow> string \<Rightarrow> int
     \<Rightarrow> int \<Rightarrow> string \<Rightarrow> ValidationResult \<Rightarrow> ('s, 'e) world
     \<Rightarrow> (string option \<times> ValidationResult option \<times> 'e error option) \<times> ('s, 'e) world" where
  "ValidateAndRetry_loop unmarshal v cl input maxRetries attempt data result w =
     (if attempt \<le> maxRetries then
        (let repairPrompt = createRepairPrompt input data result in
         case Complete cl repairPrompt \<lparr> ForceJSON = True \<rparr> w of
           (Inl err, w') \<Rightarrow>
             ((None, Some result, Some (RetryAttemptFailed attempt (ProviderError err))), w')
         | (Inr response, w') \<Rightarrow>
             (let data' = Content response;
                  result' = Validate unmarshal v data'
              in if Valid result' then ((Some data', Some result', None), w')
                 else ValidateAndRetry_loop unmarshal v cl input maxRetries (attempt + 1)
                        data' result' w'))
      else ((Some data, Some result, Some (ValidationFailedAfter maxRetries)), w))"
  by pat_completeness auto
termination
  by (relation "measure (\<lambda>(u, v, cl, input, maxRetries, attempt, data, result, w).
        nat (maxRetries + 1 - attempt))") auto

declare ValidateAndRetry_loop.simps [simp del]

definition ValidateAndRetry ::
  "(string \<Rightarrow> string + 'j) \<Rightarrow> ('j, 'r) Validator \<Rightarrow> ('s, 'e) llmClient \<Rightarrow> string \<Rightarrow> int
     \<Rightarrow> ('s, 'e) world
     \<Rightarrow> (string option \<times> ValidationResult option \<times> 'e error option) \<times> ('s, 'e) world" where
  "ValidateAndRetry unmarshal v cl input maxRetries w =
     (case Complete cl input \<lparr> ForceJSON = True \<rparr> w of
        (Inl err, w') \<Rightarrow> ((None, None, Some (InitialCompletionFailed (ProviderError err))), w')
      | (Inr response, w') \<Rightarrow>
          (let data = Content response;
               result = Validate unmarshal v data
           in if Valid result then ((Some data, Some result, None), w')
              else ValidateAndRetry_loop unmarshal v cl input maxRetries 1 data result w'))"

section \<open>Properties of the token estimate\<close>

lemma RuneCountInString_le_length: "RuneCountInString s \<le> length s"
proof (induction s rule: RuneCountInString.induct)
  case 1
  show ?case by simp
next
  case (2 c cs)
  have "length (drop (runeWidth (c # cs) - 1) cs) \<le> length cs"
    by simp
  with 2 show ?case by simp
qed

lemma CountTokens_of_count:
  "CountTokens s = (int (RuneCountInString s) div 4 * 11) div 10"
  by (cases s) (simp_all add: CountTokens_def Let_def)

lemma CountTokens_nonneg: "0 \<le> CountTokens s"
proof -
  have "0 \<le> int (RuneCountInString s) div 4 * 11"
    by (simp add: pos_imp_zdiv_nonneg_iff)
  then show ?thesis
    unfolding CountTokens_of_count by (simp add: pos_imp_zdiv_nonneg_iff)
qed

lemma CountTokens_mono_count:
  assumes "RuneCountInString s \<le> RuneCountInString t"
  shows "CountTokens s \<le> CountTokens t"
proof -
  have "int (RuneCountInString s) div 4 \<le> int (RuneCountInString t) div 4"
    using assms by (simp add: zdiv_mono1)
  then have "int (RuneCountInString s) div 4 * 11 \<le> int (RuneCountInString t) div 4 * 11"
    by simp
  then show ?thesis
    unfolding CountTokens_of_count by (rule zdiv_mono1) simp
qed

text \<open>
  Claim C5. \<open>CountTokens\<close> is a function of its input alone (equal texts have equal
  estimates), it is monotonic in the number of runes the text holds (a text with at most
  as many runes as another has at most its estimate), and the estimate is never negative.
\<close>

theorem CountTokens_stable_monotonic_nonneg:
  "(s = t \<longrightarrow> CountTokens s = CountTokens t) \<and>
   (RuneCountInString s \<le> RuneCountInString t \<longrightarrow> CountTokens s \<le> CountTokens t) \<and>
   0 \<le> CountTokens s"
  using CountTokens_mono_count [of s t] CountTokens_nonneg [of s] by simp

theorem CountTokens_stable_monotonic_nonneg_witness:
  "RuneCountInString ''abcd'' \<le> RuneCountInString ''abcdefgh'' \<and>
   CountTokens ''abcd'' = 1 \<and> CountTokens ''abcdefgh'' = 2 \<and>
   CountTokens ''abcd'' \<le> CountTokens ''abcdefgh'' \<and> 0 \<le> CountTokens ''abcd''"
  using CountTokens_stable_monotonic_nonneg [of "''abcd''" "''abcdefgh''"]
  by (simp add: CountTokens_def runeWidth_def byte_def RuneSelf_def)

lemma ceil_div_int:
  assumes "0 < (m::int)"
  shows "\<lceil>real_of_int t / real_of_int m\<rceil> = (t + m - 1) div m"
proof (rule ceiling_unique)
  define z where "z = (t + m - 1) div m"
  define r where "r = (t + m - 1) mod m"
  have eq: "m * z + r = t + m - 1"
    unfolding z_def r_def by (rule mult_div_mod_eq)
  have lo: "0 \<le> r" and hi: "r < m"
    using assms by (simp_all add: r_def)
  have "(z - 1) * m < t"
    using eq lo by (simp add: algebra_simps)
  then have "real_of_int ((z - 1) * m) < real_of_int t"
    by (simp only: of_int_less_iff)
  then show "real_of_int ((t + m - 1) div m) - 1 < real_of_int t / real_of_int m"
    using assms by (simp add: pos_less_divide_eq z_def)
  have "t \<le> z * m"
    using eq hi by (simp add: algebra_simps)
  then have "real_of_int t \<le> real_of_int (z * m)"
    by (simp only: of_int_le_iff)
  then show "real_of_int t / real_of_int m \<le> real_of_int ((t + m - 1) div m)"
    using assms by (simp add: pos_divide_le_eq z_def)
qed

lemma go_quot_pos: "0 \<le> a \<Longrightarrow> 0 < b \<Longrightarrow> go_quot a b = a div b"
  by (cases "a = 0") (simp_all add: go_quot_def)

text \<open>
  Claim C4, as the code has it. A text whose estimate is \<open>0\<close> (fewer than four runes)
  has ceiling \<open>0\<close>, and the function answers \<open>1\<close>: the guard for a text that fits
  the budget returns one chunk before any division.
\<close>

theorem GetEstimatedChunkCount_short_text_counterexample:
  "GetEstimatedChunkCount (NewChunker 10) ''abc'' = Inr 1 \<and>
   \<lceil>real_of_int (CountTokens ''abc'') / real_of_int (maxTokens (NewChunker 10))\<rceil> = 0"
  by (simp add: GetEstimatedChunkCount_def NewChunker_def CountTokens_def runeWidth_def
      byte_def RuneSelf_def)

text \<open>
  Claim C4, amended. For a positive budget \<open>GetEstimatedChunkCount\<close> returns the ceiling
  of the estimate divided by the budget, but never less than \<open>1\<close>.
\<close>

theorem GetEstimatedChunkCount_ceiling_at_least_one:
  assumes "0 < maxTokens c"
  shows "GetEstimatedChunkCount c text =
           Inr (max 1 \<lceil>real_of_int (CountTokens text) / real_of_int (maxTokens c)\<rceil>)"
proof (cases "CountTokens text \<le> maxTokens c")
  case True
  then have "real_of_int (CountTokens text) / real_of_int (maxTokens c) \<le> 1"
    using assms by simp
  then have "\<lceil>real_of_int (CountTokens text) / real_of_int (maxTokens c)\<rceil> \<le> 1"
    by (simp add: ceiling_le_iff)
  then have "max 1 \<lceil>real_of_int (CountTokens text) / real_of_int (maxTokens c)\<rceil> = 1"
    by (rule max_absorb1)
  with True show ?thesis
    by (simp add: GetEstimatedChunkCount_def)
next
  case False
  with assms have big: "maxTokens c * 1 \<le> CountTokens text + maxTokens c - 1"
    by simp
  have "(maxTokens c * 1) div maxTokens c \<le> (CountTokens text + maxTokens c - 1) div maxTokens c"
    using big assms by (intro zdiv_mono1) simp_all
  then have "1 \<le> (CountTokens text + maxTokens c - 1) div maxTokens c"
    using assms by simp
  with False assms show ?thesis
    by (simp add: GetEstimatedChunkCount_def ceil_div_int go_quot_pos max_def)
qed

theorem GetEstimatedChunkCount_ceiling_at_least_one_witness:
  "0 < maxTokens (NewChunker 2) \<and>
   GetEstimatedChunkCount (NewChunker 2) ''aaaaaaaaaaaaaaaaaaaaaaaa'' = Inr 3 \<and>
   max 1 \<lceil>real_of_int (CountTokens ''aaaaaaaaaaaaaaaaaaaaaaaa'') / real_of_int (maxTokens (NewChunker 2))\<rceil> = 3"
proof -
  have h: "0 < maxTokens (NewChunker 2)"
    by (simp add: NewChunker_def)
  have cnt: "CountTokens ''aaaaaaaaaaaaaaaaaaaaaaaa'' = 6"
    by code_simp
  from GetEstimatedChunkCount_ceiling_at_least_one [OF h, of "''aaaaaaaaaaaaaaaaaaaaaaaa''"] h cnt
  show ?thesis
    by (simp add: NewChunker_def)
qed

section \<open>Properties of the string functions\<close>

lemma Index_Some: "Index s sep = Some m \<Longrightarrow> s = take m s @ sep @ drop (m + length sep) s"
proof (induction s arbitrary: m)
  case Nil
  then show ?case by (simp split: if_splits)
next
  case (Cons a s)
  show ?case
  proof (cases "prefix sep (a # s)")
    case True
    with Cons.prems have "m = 0" by simp
    with True show ?thesis by (auto simp: prefix_def)
  next
    case False
    with Cons.prems obtain k where k: "Index s sep = Some k" "m = Suc k"
      by auto
    from Cons.IH [OF k(1)] k(2) show ?thesis by simp
  qed
qed

lemma Split_nonempty: "sep \<noteq> [] \<Longrightarrow> Split s sep \<noteq> []"
  by (subst Split.simps) (simp split: option.splits)

lemma Join_Cons: "ys \<noteq> [] \<Longrightarrow> Join (x # ys) sep = x @ sep @ Join ys sep"
  by (cases ys) simp_all

lemma Join_Split: "sep \<noteq> [] \<Longrightarrow> Join (Split s sep) sep = s"
proof (induction s sep rule: Split.induct)
  case (1 s sep)
  show ?case
  proof (cases "Index s sep")
    case None
    with 1 show ?thesis by (subst Split.simps) simp
  next
    case (Some m)
    with 1 have IH: "Join (Split (drop (m + length sep) s) sep) sep = drop (m + length sep) s"
      by simp
    have "Split s sep = take m s # Split (drop (m + length sep) s) sep"
      using 1(2) Some by (subst Split.simps) simp
    then have "Join (Split s sep) sep = take m s @ sep @ Join (Split (drop (m + length sep) s) sep) sep"
      using 1(2) by (simp add: Join_Cons Split_nonempty)
    with IH Index_Some [OF Some] show ?thesis by simp
  qed
qed

lemma Join_take_drop:
  "0 < i \<Longrightarrow> i < length ps \<Longrightarrow> Join (take i ps) b @ b @ Join (drop i ps) b = Join ps b"
proof (induction ps arbitrary: i)
  case Nil
  then show ?case by simp
next
  case (Cons p ps)
  show ?case
  proof (cases i)
    case 0
    with Cons.prems show ?thesis by simp
  next
    case (Suc k)
    show ?thesis
    proof (cases k)
      case 0
      with Suc Cons.prems show ?thesis by (simp add: Join_Cons)
    next
      case (Suc j)
      with \<open>i = Suc k\<close> Cons.prems have "0 < k" "k < length ps" by simp_all
      have "take k ps \<noteq> []" "ps \<noteq> []"
        using \<open>0 < k\<close> \<open>k < length ps\<close> by auto
      with Cons.IH [OF \<open>0 < k\<close> \<open>k < length ps\<close>] \<open>i = Suc k\<close>
      show ?thesis by (simp add: Join_Cons)
    qed
  qed
qed

lemma spaceEncodings_nonempty: "e \<in> set spaceEncodings \<Longrightarrow> e \<noteq> []"
  by (auto simp: spaceEncodings_def)

lemma leadingSpace_enc: "e \<in> set spaceEncodings \<Longrightarrow> leadingSpace (e @ x) = length e"
  unfolding spaceEncodings_def leadingSpace_def
  by (elim set_ConsD [elim_format] disjE) simp_all

lemma leadingSpace_prefix:
  assumes "0 < leadingSpace s"
  shows "\<exists>e\<in>set spaceEncodings. s = e @ drop (leadingSpace s) s"
proof -
  from assms obtain e where e: "find (\<lambda>e. prefix e s) spaceEncodings = Some e"
    by (auto simp: leadingSpace_def split: option.splits)
  then have "e \<in> set spaceEncodings" "prefix e s"
    by (auto simp: find_Some_iff)
  moreover from e have "leadingSpace s = length e"
    by (simp add: leadingSpace_def)
  ultimately show ?thesis
    by (auto simp: prefix_def)
qed

lemma trailingSpace_suffix:
  assumes "0 < trailingSpace s"
  shows "\<exists>e\<in>set spaceEncodings. s = take (length s - trailingSpace s) s @ e"
proof -
  from assms obtain e where e: "find (\<lambda>e. suffix e s) spaceEncodings = Some e"
    by (auto simp: trailingSpace_def split: option.splits)
  then have "e \<in> set spaceEncodings" "suffix e s"
    by (auto simp: find_Some_iff)
  moreover from e have "trailingSpace s = length e"
    by (simp add: trailingSpace_def)
  ultimately show ?thesis
    by (auto simp: suffix_def)
qed

lemma TrimLeft_Nil: "TrimLeft [] = []"
  by (subst TrimLeft.simps) (simp add: leadingSpace_def spaceEncodings_def)

lemma TrimRight_Nil: "TrimRight [] = []"
  by (subst TrimRight.simps) (simp add: trailingSpace_def spaceEncodings_def)

lemma TrimLeft_enc: 
  assumes "e \<in> set spaceEncodings"
  shows "TrimLeft (e @ x) = TrimLeft x"
proof -
  have "0 < leadingSpace (e @ x)"
    using assms by (simp add: leadingSpace_enc spaceEncodings_nonempty)
  then have "TrimLeft (e @ x) = TrimLeft (drop (leadingSpace (e @ x)) (e @ x))"
    by (subst TrimLeft.simps) simp
  then show ?thesis
    using assms by (simp add: leadingSpace_enc)
qed

lemma TrimLeft_blank_append: "TrimLeft x = [] \<Longrightarrow> TrimLeft (x @ y) = TrimLeft y"
proof (induction x rule: TrimLeft.induct)
  case (1 s)
  show ?case
  proof (cases "0 < leadingSpace s")
    case True
    then obtain e where e: "e \<in> set spaceEncodings" "s = e @ drop (leadingSpace s) s"
      using leadingSpace_prefix by blast
    from True "1.prems" have "TrimLeft (drop (leadingSpace s) s) = []"
      by (subst (asm) TrimLeft.simps) simp
    with "1.IH" True have "TrimLeft (drop (leadingSpace s) s @ y) = TrimLeft y"
      by simp
    moreover have "TrimLeft (s @ y) = TrimLeft (drop (leadingSpace s) s @ y)"
      using TrimLeft_enc [OF e(1), of "drop (leadingSpace s) s @ y"] e(2)
      by (metis append.assoc)
    ultimately show ?thesis by simp
  next
    case False
    with "1.prems" have "s = []"
      by (subst (asm) TrimLeft.simps) simp
    then show ?thesis by simp
  qed
qed

lemma TrimLeft_decomp: "\<exists>a. s = a @ TrimLeft s \<and> TrimLeft a = []"
proof (induction s rule: TrimLeft.induct)
  case (1 s)
  show ?case
  proof (cases "0 < leadingSpace s")
    case True
    then obtain e where e: "e \<in> set spaceEncodings" "s = e @ drop (leadingSpace s) s"
      using leadingSpace_prefix by blast
    from True have eq: "TrimLeft s = TrimLeft (drop (leadingSpace s) s)"
      by (subst TrimLeft.simps) simp
    from "1.IH" True obtain a where
      a: "drop (leadingSpace s) s = a @ TrimLeft (drop (leadingSpace s) s)" "TrimLeft a = []"
      by blast
    have "s = (e @ a) @ TrimLeft s"
      using e(2) a(1) eq by (metis append.assoc)
    moreover have "TrimLeft (e @ a) = []"
      using a(2) by (simp add: TrimLeft_enc [OF e(1)])
    ultimately show ?thesis by blast
  next
    case False
    then have "TrimLeft s = s"
      by (subst TrimLeft.simps) simp
    then show ?thesis
      using TrimLeft_Nil by auto
  qed
qed

lemma TrimRight_decomp: "\<exists>b. s = TrimRight s @ b \<and> TrimLeft b = []"
proof (induction s rule: TrimRight.induct)
  case (1 s)
  show ?case
  proof (cases "0 < trailingSpace s")
    case True
    let ?s' = "take (length s - trailingSpace s) s"
    from True obtain e where e: "e \<in> set spaceEncodings" "s = ?s' @ e"
      using trailingSpace_suffix by blast
    from True have eq: "TrimRight s = TrimRight ?s'"
      by (subst TrimRight.simps) simp
    from "1.IH" True obtain b where b: "?s' = TrimRight ?s' @ b" "TrimLeft b = []"
      by blast
    have "s = TrimRight s @ (b @ e)"
      using e(2) b(1) eq by (metis append.assoc)
    moreover have "TrimLeft (b @ e) = []"
      using TrimLeft_blank_append [OF b(2), of e] TrimLeft_enc [OF e(1), of "[]"]
      by (simp add: TrimLeft_Nil)
    ultimately show ?thesis by blast
  next
    case False
    then have "TrimRight s = s"
      by (subst TrimRight.simps) simp
    then show ?thesis
      using TrimLeft_Nil by auto
  qed
qed

lemma TrimSpace_blank: "TrimLeft s = [] \<Longrightarrow> TrimSpace s = []"
  by (simp add: TrimSpace_def TrimRight_Nil)

lemma TrimSpace_decomp:
  "\<exists>a b. s = a @ TrimSpace s @ b \<and> TrimLeft a = [] \<and> TrimLeft b = []"
proof -
  obtain a where a: "s = a @ TrimLeft s" "TrimLeft a = []"
    using TrimLeft_decomp by blast
  obtain b where b: "TrimLeft s = TrimRight (TrimLeft s) @ b" "TrimLeft b = []"
    using TrimRight_decomp by blast
  have "s = a @ TrimSpace s @ b"
    using a(1) b(1) by (simp add: TrimSpace_def)
  with a(2) b(2) show ?thesis by blast
qed

section \<open>Properties of the chunker\<close>

lemma Join_snoc: "Join (pre @ [p]) b = (if pre = [] then p else Join pre b @ b @ p)"
proof (induction pre)
  case Nil
  show ?case by simp
next
  case (Cons a pre)
  then show ?case by (cases pre) simp_all
qed

lemma tryBoundary_loop_spec:
  assumes "parts = pre @ rest" and "i = length pre" and "used = i"
    and "current = Join pre boundary" and "Join parts boundary = text"
    and "0 < i \<longrightarrow> CountTokens current \<le> maxTokens c"
    and "tryBoundary_loop c text boundary parts i current used rest = (chunk, rem)"
  shows "chunk = [] \<or>
         (CountTokens chunk \<le> maxTokens c \<and>
          (text = chunk @ boundary @ rem \<or> (chunk = text \<and> rem = [])))"
  using assms
proof (induction rest arbitrary: pre i used current)
  case Nil
  then have "chunk = current" "rem = []" "current = text"
    by simp_all
  with Nil show ?case
    by (cases pre) auto
next
  case (Cons part rest)
  let ?cand = "current @ (if 0 < i then boundary else []) @ part"
  have cand: "?cand = Join (pre @ [part]) boundary"
    using Cons.prems(2,4) by (simp add: Join_snoc)
  show ?case
  proof (cases "maxTokens c < CountTokens ?cand")
    case True
    show ?thesis
    proof (cases "used = 0")
      case True
      with \<open>maxTokens c < CountTokens ?cand\<close> Cons.prems(7) show ?thesis
        by (simp add: Let_def)
    next
      case False
      with True Cons.prems(7) have res: "chunk = current" "rem = Join (drop used parts) boundary"
        by (simp_all add: Let_def)
      from False Cons.prems(1,2,3) have "0 < used" "used < length parts" "take used parts = pre"
        by simp_all
      with Join_take_drop [of used parts boundary] Cons.prems(4,5)
      have "text = current @ boundary @ Join (drop used parts) boundary"
        by simp
      with res Cons.prems(3,6) \<open>0 < used\<close> show ?thesis
        by simp
    qed
  next
    case False
    with Cons.prems(7)
    have run: "tryBoundary_loop c text boundary parts (i + 1) ?cand (i + 1) rest = (chunk, rem)"
      by (simp add: Let_def)
    show ?thesis
    proof (rule Cons.IH [of "pre @ [part]" "i + 1" "i + 1" ?cand])
      show "parts = (pre @ [part]) @ rest" using Cons.prems(1) by simp
      show "i + 1 = length (pre @ [part])" using Cons.prems(2) by simp
      show "i + 1 = i + 1" by simp
      show "?cand = Join (pre @ [part]) boundary" by (rule cand)
      show "Join parts boundary = text" by (rule Cons.prems(5))
      show "0 < i + 1 \<longrightarrow> CountTokens ?cand \<le> maxTokens c" using False by simp
      show "tryBoundary_loop c text boundary parts (i + 1) ?cand (i + 1) rest = (chunk, rem)"
        by (rule run)
    qed
  qed
qed

lemma tryBoundary_spec:
  assumes "boundary \<noteq> []" and "maxTokens c < CountTokens text"
    and "tryBoundary c text boundary = (chunk, rem)"
  shows "chunk = [] \<or> (CountTokens chunk \<le> maxTokens c \<and> text = chunk @ boundary @ rem)"
proof (cases "length (Split text boundary) \<le> 1")
  case True
  with assms(3) show ?thesis
    by (simp add: tryBoundary_def Let_def)
next
  case False
  with assms(3)
  have "tryBoundary_loop c text boundary (Split text boundary) 0 [] 0 (Split text boundary)
          = (chunk, rem)"
    by (simp add: tryBoundary_def Let_def)
  from tryBoundary_loop_spec [of "Split text boundary" "[]" "Split text boundary" 0 0 "[]"
      boundary "text" c chunk rem, OF _ _ _ _ _ _ this] assms(1)
  have "chunk = [] \<or>
         (CountTokens chunk \<le> maxTokens c \<and>
          (text = chunk @ boundary @ rem \<or> (chunk = text \<and> rem = [])))"
    by (simp add: Join_Split)
  with assms(2) show ?thesis
    by auto
qed

lemma boundaries_nonempty: "b \<in> set boundaries \<Longrightarrow> b \<noteq> []"
  by (auto simp: boundaries_def)

lemma findOptimalChunk_loop_spec:
  assumes "maxTokens c < CountTokens text" and "set bs \<subseteq> set boundaries"
    and "fst best = [] \<or>
         (CountTokens (fst best) \<le> maxTokens c \<and>
          (\<exists>b\<in>set boundaries. text = fst best @ b @ snd best))"
    and "findOptimalChunk_loop c text best bs = (chunk, rem)"
  shows "chunk = [] \<or>
         (CountTokens chunk \<le> maxTokens c \<and> (\<exists>b\<in>set boundaries. text = chunk @ b @ rem))"
  using assms(2-)
proof (induction bs arbitrary: best)
  case Nil
  then show ?case by simp
next
  case (Cons boundary bs)
  obtain bestChunk bestRemaining where best: "best = (bestChunk, bestRemaining)"
    by (cases best)
  obtain ch rest where tb: "tryBoundary c text boundary = (ch, rest)"
    by (cases "tryBoundary c text boundary")
  from Cons.prems(1) have mem: "boundary \<in> set boundaries" and sub: "set bs \<subseteq> set boundaries"
    by simp_all
  from tryBoundary_spec [OF boundaries_nonempty [OF mem] assms(1) tb]
  have spec: "ch = [] \<or> (CountTokens ch \<le> maxTokens c \<and> text = ch @ boundary @ rest)" .
  show ?case
  proof (cases "ch \<noteq> [] \<and> length bestChunk < length ch")
    case True
    with Cons.prems(3) best tb
    have "findOptimalChunk_loop c text (ch, rest) bs = (chunk, rem)"
      by simp
    moreover from True spec mem
    have "fst (ch, rest) = [] \<or>
          (CountTokens (fst (ch, rest)) \<le> maxTokens c \<and>
           (\<exists>b\<in>set boundaries. text = fst (ch, rest) @ b @ snd (ch, rest)))"
      by auto
    ultimately show ?thesis
      using Cons.IH [OF sub] by blast
  next
    case False
    with Cons.prems(3) best tb
    have "findOptimalChunk_loop c text best bs = (chunk, rem)"
      by auto
    with Cons.IH [OF sub Cons.prems(2)] show ?thesis
      by blast
  qed
qed

lemma findOptimalChunk_spec:
  assumes "maxTokens c < CountTokens text" and "findOptimalChunk c text = (chunk, rem)"
  shows "chunk = [] \<or>
         (CountTokens chunk \<le> maxTokens c \<and> (\<exists>b\<in>set boundaries. text = chunk @ b @ rem))"
proof -
  from assms have "findOptimalChunk_loop c text ([], text) boundaries = (chunk, rem)"
    by (simp add: findOptimalChunk_def)
  from findOptimalChunk_loop_spec [OF assms(1) _ _ this] show ?thesis
    by simp
qed

lemma CountTokens_le_of_length:
  assumes "0 \<le> m" and "int (length x) \<le> 32 * m div 10"
  shows "CountTokens x \<le> m"
proof -
  have "int (RuneCountInString x) \<le> 32 * m div 10"
    using RuneCountInString_le_length [of x] assms(2) by linarith
  with assms(1) have "(int (RuneCountInString x) div 4 * 11) div 10 \<le> m"
    by linarith
  then show ?thesis
    by (simp add: CountTokens_of_count)
qed

lemma charLimit_pos: "0 < maxTokens c \<Longrightarrow> charLimit c = 32 * maxTokens c div 10"
  by (simp add: charLimit_def go_quot_def)

lemma walkBack_le: "walkBack text k \<le> k"
  by (induction k) auto

lemma forceSplit_spec:
  assumes "0 < maxTokens c" and "maxTokens c < CountTokens text"
  shows "\<exists>chunk rest a t. forceSplit c text = Inr (chunk, rest) \<and> chunk \<noteq> [] \<and>
           CountTokens chunk \<le> maxTokens c \<and> text = chunk @ a @ rest @ t \<and>
           TrimLeft a = [] \<and> TrimLeft t = []"
proof -
  let ?L = "nat (charLimit c)"
  have lim: "charLimit c = 32 * maxTokens c div 10"
    using assms(1) by (rule charLimit_pos)
  have long: "\<not> int (length text) \<le> charLimit c"
    using CountTokens_le_of_length [of "maxTokens c" "text"] assms lim by auto
  have Lpos: "0 < charLimit c"
    using assms(1) lim by linarith
  define cut where "cut = (if walkBack text ?L = 0 then ?L else walkBack text ?L)"
  have cut: "0 < cut" "cut \<le> ?L"
    using Lpos walkBack_le [of "text" ?L] by (auto simp: cut_def)
  have res: "forceSplit c text = Inr (take cut text, TrimSpace (drop cut text))"
    using long Lpos by (simp add: forceSplit_def Let_def cut_def)
  have len: "length (take cut text) = cut"
    using cut long by simp
  then have ne: "take cut text \<noteq> []"
    using cut by auto
  have "int (length (take cut text)) \<le> 32 * maxTokens c div 10"
    using len cut lim by linarith
  then have cnt: "CountTokens (take cut text) \<le> maxTokens c"
    using assms(1) CountTokens_le_of_length [of "maxTokens c" "take cut text"] by simp
  obtain a t where dec: "drop cut text = a @ TrimSpace (drop cut text) @ t"
    "TrimLeft a = []" "TrimLeft t = []"
    using TrimSpace_decomp by blast
  have "text = take cut text @ a @ TrimSpace (drop cut text) @ t"
    using dec(1) by (metis append_take_drop_id)
  with res ne cnt dec(2,3) show ?thesis
    by blast
qed

lemma CountTokens_Nil: "CountTokens [] = 0"
  by (simp add: CountTokens_def)

lemma ChunkText_loop_step:
  assumes "0 < maxTokens c" and "maxTokens c < CountTokens remaining"
  shows "\<exists>chunk rest g t.
           (\<forall>chunks. ChunkText_loop c remaining chunks = ChunkText_loop c rest (chunks @ [chunk])) \<and>
           length rest < length remaining \<and> CountTokens chunk \<le> maxTokens c \<and>
           remaining = chunk @ g @ rest @ t \<and>
           (g \<in> set boundaries \<or> TrimLeft g = []) \<and> TrimLeft t = []"
proof -
  have ne: "0 < length remaining"
    using assms by (cases remaining) (simp_all add: CountTokens_Nil)
  obtain ch rs where opt: "findOptimalChunk c remaining = (ch, rs)"
    by (cases "findOptimalChunk c remaining")
  show ?thesis
  proof (cases "ch = []")
    case True
    from forceSplit_spec [OF assms] obtain chunk rest a t where
      fs: "forceSplit c remaining = Inr (chunk, rest)" "chunk \<noteq> []"
        "CountTokens chunk \<le> maxTokens c" "remaining = chunk @ a @ rest @ t"
        "TrimLeft a = []" "TrimLeft t = []"
      by blast
    have "\<forall>chunks. ChunkText_loop c remaining chunks = ChunkText_loop c rest (chunks @ [chunk])"
      using ne assms(2) opt True fs(1) by (subst ChunkText_loop.simps) simp
    moreover have "length rest < length remaining"
      using arg_cong [OF fs(4), of length] fs(2) by simp
    ultimately show ?thesis
      using fs(3-6) by blast
  next
    case False
    with findOptimalChunk_spec [OF assms(2) opt] obtain b where
      b: "CountTokens ch \<le> maxTokens c" "b \<in> set boundaries" "remaining = ch @ b @ rs"
      by blast
    have "\<forall>chunks. ChunkText_loop c remaining chunks = ChunkText_loop c rs (chunks @ [ch])"
      using ne assms(2) opt False by (subst ChunkText_loop.simps) simp
    moreover have "length rs < length remaining"
      using arg_cong [OF b(3), of length] False by simp
    moreover have "remaining = ch @ b @ rs @ []"
      using b(3) by simp
    ultimately show ?thesis
      using b(1,2) TrimLeft_Nil by blast
  qed
qed

lemma ChunkText_loop_spec:
  assumes "0 < maxTokens c"
  shows "\<exists>new rem gs tl.
           ChunkText_loop c remaining chunks = Some (Inr (chunks @ new, rem)) \<and>
           (\<forall>x\<in>set new. CountTokens x \<le> maxTokens c) \<and> CountTokens rem \<le> maxTokens c \<and>
           length gs = length new \<and> (\<forall>g\<in>set gs. g \<in> set boundaries \<or> TrimLeft g = []) \<and>
           TrimLeft tl = [] \<and> remaining = concat (map2 (@) new gs) @ rem @ tl"
proof (induction "length remaining" arbitrary: remaining chunks rule: less_induct)
  case less
  show ?case
  proof (cases "0 < length remaining \<and> maxTokens c < CountTokens remaining")
    case False
    then have "ChunkText_loop c remaining chunks = Some (Inr (chunks @ [], remaining))"
      by (subst ChunkText_loop.simps) auto
    moreover from False assms have "CountTokens remaining \<le> maxTokens c"
      by (cases remaining) (auto simp: CountTokens_Nil)
    moreover have "remaining = concat (map2 (@) [] []) @ remaining @ []"
      by simp
    ultimately show ?thesis
      using TrimLeft_Nil
      by (intro exI [of _ "[]"] exI [of _ remaining]) auto
  next
    case True
    from ChunkText_loop_step [OF assms] True obtain chunk rest g t where
      st: "\<And>chunks. ChunkText_loop c remaining chunks = ChunkText_loop c rest (chunks @ [chunk])"
        "length rest < length remaining" "CountTokens chunk \<le> maxTokens c"
        "remaining = chunk @ g @ rest @ t" "g \<in> set boundaries \<or> TrimLeft g = []"
        "TrimLeft t = []"
      by blast
    from less [OF st(2), of "chunks @ [chunk]"] obtain new rem gs tl where
      ih: "ChunkText_loop c rest (chunks @ [chunk]) = Some (Inr ((chunks @ [chunk]) @ new, rem))"
        "\<forall>x\<in>set new. CountTokens x \<le> maxTokens c" "CountTokens rem \<le> maxTokens c"
        "length gs = length new" "\<forall>g\<in>set gs. g \<in> set boundaries \<or> TrimLeft g = []"
        "TrimLeft tl = []" "rest = concat (map2 (@) new gs) @ rem @ tl"
      by blast
    have 1: "ChunkText_loop c remaining chunks = Some (Inr (chunks @ (chunk # new), rem))"
      using st(1) ih(1) by simp
    have 2: "\<forall>x\<in>set (chunk # new). CountTokens x \<le> maxTokens c"
      using st(3) ih(2) by simp
    have 3: "length (g # gs) = length (chunk # new)"
      using ih(4) by simp
    have 4: "\<forall>g'\<in>set (g # gs). g' \<in> set boundaries \<or> TrimLeft g' = []"
      using st(5) ih(5) by simp
    have 5: "TrimLeft (tl @ t) = []"
      using TrimLeft_blank_append [OF ih(6), of t] st(6) by simp
    have 6: "remaining = concat (map2 (@) (chunk # new) (g # gs)) @ rem @ (tl @ t)"
      by (subst st(4), subst ih(7)) simp
    from 1 2 ih(3) 3 4 5 6 show ?thesis
      by blast
  qed
qed

lemma TrimLeft_idem: "TrimLeft (TrimLeft s) = TrimLeft s"
proof (induction s rule: TrimLeft.induct)
  case (1 s)
  show ?case
  proof (cases "0 < leadingSpace s")
    case True
    then have "TrimLeft s = TrimLeft (drop (leadingSpace s) s)"
      by (subst TrimLeft.simps) simp
    with 1 True show ?thesis by simp
  next
    case False
    then have "TrimLeft s = s"
      by (subst TrimLeft.simps) simp
    then show ?thesis by simp
  qed
qed

lemma TrimSpace_empty_imp: 
  assumes "TrimSpace s = []"
  shows "TrimLeft s = []"
proof -
  obtain b where b: "TrimLeft s = TrimRight (TrimLeft s) @ b" "TrimLeft b = []"
    using TrimRight_decomp by blast
  from assms b(1) have "TrimLeft s = b"
    by (simp add: TrimSpace_def)
  with b(2) TrimLeft_idem [of s] show ?thesis
    by simp
qed

lemma ChunkText_spec:
  assumes "0 < maxTokens c" and "maxTokens c < CountTokens text"
  shows "\<exists>cs gs tl. ChunkText c text = Some (Inr cs) \<and>
           (\<forall>x\<in>set cs. CountTokens x \<le> maxTokens c) \<and> length gs = length cs \<and>
           (\<forall>g\<in>set gs. g \<in> set boundaries \<or> TrimLeft g = []) \<and> TrimLeft tl = [] \<and>
           text = concat (map2 (@) cs gs) @ tl"
proof -
  from ChunkText_loop_spec [OF assms(1), of "text" "[]"] obtain new rem gs tl where
    lp: "ChunkText_loop c text [] = Some (Inr (new, rem))"
      "\<forall>x\<in>set new. CountTokens x \<le> maxTokens c" "CountTokens rem \<le> maxTokens c"
      "length gs = length new" "\<forall>g\<in>set gs. g \<in> set boundaries \<or> TrimLeft g = []"
      "TrimLeft tl = []" "text = concat (map2 (@) new gs) @ rem @ tl"
    by auto
  show ?thesis
  proof (cases "0 < length (TrimSpace rem)")
    case True
    with assms(2) lp(1) have "ChunkText c text = Some (Inr (new @ [rem]))"
      by (simp add: ChunkText_def Let_def)
    moreover have "\<forall>x\<in>set (new @ [rem]). CountTokens x \<le> maxTokens c"
      using lp(2,3) by simp
    moreover have "length (gs @ [[]]) = length (new @ [rem])"
      using lp(4) by simp
    moreover have "\<forall>g\<in>set (gs @ [[]]). g \<in> set boundaries \<or> TrimLeft g = []"
      using lp(5) TrimLeft_Nil by simp
    moreover have "text = concat (map2 (@) (new @ [rem]) (gs @ [[]])) @ tl"
      using lp(4,7) by simp
    ultimately show ?thesis
      using lp(6) by blast
  next
    case False
    with assms(2) lp(1) have "ChunkText c text = Some (Inr new)"
      by (simp add: ChunkText_def Let_def)
    moreover from False have "TrimLeft rem = []"
      by (simp add: TrimSpace_empty_imp)
    then have "TrimLeft (rem @ tl) = []"
      using TrimLeft_blank_append [of rem tl] lp(6) by simp
    moreover have "text = concat (map2 (@) new gs) @ (rem @ tl)"
      using lp(7) by simp
    ultimately show ?thesis
      using lp(2,4,5) by blast
  qed
qed


text \<open>
  Claim C2. For every text and every positive budget \<open>ChunkText\<close> returns, and every
  chunk it returns has a token estimate of at most the budget. A forced-split piece is
  no exception: it holds at most \<open>charLimit\<close> bytes, hence at most that many runes, and
  \<open>3.2 * maxTokens\<close> runes are estimated at no more than \<open>0.88 * maxTokens\<close> tokens.
\<close>

theorem ChunkText_chunks_within_budget:
  assumes "0 < maxTokens c"
  shows "\<exists>cs. ChunkText c text = Some (Inr cs) \<and> (\<forall>x\<in>set cs. CountTokens x \<le> maxTokens c)"
proof (cases "CountTokens text \<le> maxTokens c")
  case True
  then show ?thesis
    by (simp add: ChunkText_def)
next
  case False
  with ChunkText_spec [OF assms, of "text"] show ?thesis
    by auto
qed

theorem ChunkText_chunks_within_budget_witness:
  "0 < maxTokens (NewChunker 1) \<and>
   ChunkText (NewChunker 1) ''aaaaaaaaaaaaaaaaaaaaaaaaa  '' =
     Some (Inr [''aaa'', ''aaa'', ''aaa'', ''aaa'', ''aaa'', ''aaa'', ''aaaaaaa'']) \<and>
   CountTokens ''aaa'' \<le> maxTokens (NewChunker 1) \<and>
   CountTokens ''aaaaaaa'' \<le> maxTokens (NewChunker 1)"
proof -
  have h: "0 < maxTokens (NewChunker 1)"
    by (simp add: NewChunker_def)
  have ev: "ChunkText (NewChunker 1) ''aaaaaaaaaaaaaaaaaaaaaaaaa  '' =
     Some (Inr [''aaa'', ''aaa'', ''aaa'', ''aaa'', ''aaa'', ''aaa'', ''aaaaaaa''])"
    by code_simp
  from ChunkText_chunks_within_budget [OF h, of "''aaaaaaaaaaaaaaaaaaaaaaaaa  ''"] ev h
  show ?thesis
    by auto
qed

text \<open>
  Claim C1, as the code has it. \<open>tryBoundary\<close> hands back the parts before and after
  the delimiter it cut at, and the delimiter itself is in neither; for the sentence and
  clause delimiters that drops a punctuation character, not only white space. In the
  text below the full stop is in no chunk.
\<close>

theorem ChunkText_drops_delimiter_counterexample:
  "maxTokens (NewChunker 1) < CountTokens ''aaaaaaa. bbbb'' \<and>
   ChunkText (NewChunker 1) ''aaaaaaa. bbbb'' = Some (Inr [''aaaaaaa'', ''bbbb'']) \<and>
   CHR ''.'' \<in> set ''aaaaaaa. bbbb'' \<and> CHR ''.'' \<notin> set (concat [''aaaaaaa'', ''bbbb''])"
proof -
  have "CountTokens ''aaaaaaa. bbbb'' = 3"
    by code_simp
  moreover have "ChunkText (NewChunker 1) ''aaaaaaa. bbbb'' = Some (Inr [''aaaaaaa'', ''bbbb''])"
    by code_simp
  ultimately show ?thesis
    by (simp add: NewChunker_def)
qed

text \<open>
  Claim C1, amended. For a positive budget and a text whose estimate exceeds it,
  \<open>ChunkText\<close> returns chunks from which the text is rebuilt by putting back, after
  each chunk, what the split dropped there: one of the eight delimiters (cut at a
  semantic boundary) or white space (trimmed at a forced split), and white space at the
  very end.
\<close>

theorem ChunkText_reassembles_with_dropped_gaps:
  assumes "0 < maxTokens c" and "maxTokens c < CountTokens text"
  shows "\<exists>cs gs tl. ChunkText c text = Some (Inr cs) \<and> length gs = length cs \<and>
           (\<forall>g\<in>set gs. g \<in> set boundaries \<or> TrimSpace g = []) \<and> TrimSpace tl = [] \<and>
           text = concat (map2 (@) cs gs) @ tl"
proof -
  from ChunkText_spec [OF assms] obtain cs gs tl where
    sp: "ChunkText c text = Some (Inr cs)" "length gs = length cs"
      "\<forall>g\<in>set gs. g \<in> set boundaries \<or> TrimLeft g = []" "TrimLeft tl = []"
      "text = concat (map2 (@) cs gs) @ tl"
    by blast
  from sp(3) have "\<forall>g\<in>set gs. g \<in> set boundaries \<or> TrimSpace g = []"
    using TrimSpace_blank by blast
  with sp(1,2,5) TrimSpace_blank [OF sp(4)] show ?thesis
    by blast
qed

theorem ChunkText_reassembles_with_dropped_gaps_witness:
  "0 < maxTokens (NewChunker 1) \<and> maxTokens (NewChunker 1) < CountTokens ''aaaaaaa. bbbb'' \<and>
   ChunkText (NewChunker 1) ''aaaaaaa. bbbb'' = Some (Inr [''aaaaaaa'', ''bbbb'']) \<and>
   ''. '' \<in> set boundaries \<and> TrimSpace [] = [] \<and>
   ''aaaaaaa. bbbb'' = concat (map2 (@) [''aaaaaaa'', ''bbbb''] [''. '', []]) @ [] \<and>
   (\<exists>gs tl. length gs = length [''aaaaaaa'', ''bbbb''] \<and> TrimSpace tl = [] \<and>
      ''aaaaaaa. bbbb'' = concat (map2 (@) [''aaaaaaa'', ''bbbb''] gs) @ tl)"
proof -
  have h1: "0 < maxTokens (NewChunker 1)"
    by (simp add: NewChunker_def)
  have cnt: "CountTokens ''aaaaaaa. bbbb'' = 3"
    by code_simp
  then have h2: "maxTokens (NewChunker 1) < CountTokens ''aaaaaaa. bbbb''"
    by (simp add: NewChunker_def)
  have ev: "ChunkText (NewChunker 1) ''aaaaaaa. bbbb'' = Some (Inr [''aaaaaaa'', ''bbbb''])"
    by code_simp
  have b: "''. '' \<in> set boundaries"
    by (simp add: boundaries_def)
  have t: "TrimSpace [] = []"
    by (simp add: TrimSpace_blank TrimLeft_Nil)
  from ChunkText_reassembles_with_dropped_gaps [OF h1 h2] obtain cs gs tl where
    "ChunkText (NewChunker 1) ''aaaaaaa. bbbb'' = Some (Inr cs)" "length gs = length cs"
    "TrimSpace tl = []" "''aaaaaaa. bbbb'' = concat (map2 (@) cs gs) @ tl"
    by blast
  with ev have "\<exists>gs tl. length gs = length [''aaaaaaa'', ''bbbb''] \<and> TrimSpace tl = [] \<and>
      ''aaaaaaa. bbbb'' = concat (map2 (@) [''aaaaaaa'', ''bbbb''] gs) @ tl"
    by auto
  with h1 h2 ev b t show ?thesis
    by simp
qed

section \<open>Properties of the merge engine\<close>

lemma processSingleChunk_ok:
  assumes "client m s (createExtractionPrompt m chunk) \<lparr> ForceJSON = True \<rparr> = (Inr resp, s')"
  shows "processSingleChunk m chunk index (s, calls) =
           (Inr \<lparr> ChunkIndex = index, ResultContent = chunk, JSONData = Content resp,
                  Stats = resp, Error = None \<rparr>,
            (s', calls @ [(createExtractionPrompt m chunk, \<lparr> ForceJSON = True \<rparr>, Inr resp)]))"
  using assms by (simp add: processSingleChunk_def Complete_def)

lemma mergeWithPrevious_ok:
  assumes "client m s (createMergePrompt m prev chunk) \<lparr> ForceJSON = True \<rparr> = (Inr resp, s')"
  shows "mergeWithPrevious m prev chunk index (s, calls) =
           (Inr \<lparr> ChunkIndex = index, ResultContent = chunk, JSONData = Content resp,
                  Stats = resp, Error = None \<rparr>,
            (s', calls @ [(createMergePrompt m prev chunk, \<lparr> ForceJSON = True \<rparr>, Inr resp)]))"
  using assms by (simp add: mergeWithPrevious_def Complete_def)

lemma schemaTitle_Strategy [simp]:
  "schemaTitle (m\<lparr>options := (options m)\<lparr>Strategy := st\<rparr>\<rparr>) = schemaTitle m"
  by (simp add: schemaTitle_def)

lemma createExtractionPrompt_Strategy [simp]:
  "createExtractionPrompt (m\<lparr>options := (options m)\<lparr>Strategy := st\<rparr>\<rparr>) chunk =
     createExtractionPrompt m chunk"
  by (simp add: createExtractionPrompt_def)

lemma createConsolidationPrompt_Strategy [simp]:
  "createConsolidationPrompt (m\<lparr>options := (options m)\<lparr>Strategy := st\<rparr>\<rparr>) js =
     createConsolidationPrompt m js"
  by (simp add: createConsolidationPrompt_def)

lemma processSingleChunk_Strategy [simp]:
  "processSingleChunk (m\<lparr>options := (options m)\<lparr>Strategy := st\<rparr>\<rparr>) chunk i w =
     processSingleChunk m chunk i w"
  by (simp add: processSingleChunk_def)

lemma mergeAllResults_Strategy [simp]:
  "mergeAllResults (m\<lparr>options := (options m)\<lparr>Strategy := st\<rparr>\<rparr>) rs w = mergeAllResults m rs w"
  by (simp add: mergeAllResults_def)

lemma MockClient_Complete_ok:
  "\<forall>s p opts. \<exists>resp s'. MockClient_Complete model s p opts = (Inr resp, s')"
  by (simp add: MockClient_Complete_def Let_def)

text \<open>
  Claim C10. Whatever the strategy value, named or not, \<open>ProcessChunks\<close> on a sequence
  of one chunk with a provider that answers the extraction prompt issues exactly that one
  call and returns the chunk's result with index \<open>0\<close>: the result does not depend on the
  strategy \<open>st\<close>.
\<close>

theorem ProcessChunks_single_chunk_any_strategy:
  assumes "client m s (createExtractionPrompt m chunk) \<lparr> ForceJSON = True \<rparr> = (Inr resp, s')"
  shows "ProcessChunks (m\<lparr>options := (options m)\<lparr>Strategy := st\<rparr>\<rparr>) [chunk] (s, calls) =
           (Inr \<lparr> ChunkIndex = 0, ResultContent = chunk, JSONData = Content resp,
                  Stats = resp, Error = None \<rparr>,
            (s', calls @ [(createExtractionPrompt m chunk, \<lparr> ForceJSON = True \<rparr>, Inr resp)]))"
  by (simp add: ProcessChunks_def processSingleChunk_ok [OF assms])

theorem ProcessChunks_single_chunk_any_strategy_witness:
  "client (NewMerger \<lparr> Slug = ''prd'', Title = ''PRD'', Schema = ''{}'' \<rparr>
             (MockClient_Complete ''mock-model'' :: (string list, unit) llmClient)
             \<lparr> Strategy = StrategyTwoPass, Instructions = [], MaxRetries = 2, ShowStats = False \<rparr>)
      [] (createExtractionPrompt
            (NewMerger \<lparr> Slug = ''prd'', Title = ''PRD'', Schema = ''{}'' \<rparr>
               (MockClient_Complete ''mock-model'' :: (string list, unit) llmClient)
               \<lparr> Strategy = StrategyTwoPass, Instructions = [], MaxRetries = 2,
                 ShowStats = False \<rparr>) ''Some text'')
      \<lparr> ForceJSON = True \<rparr> =
     (Inr \<lparr> Content = ''Mock response'',
            TokensUsed = \<lparr> PromptTokens = 100, CompletionTokens = 50, TotalTokens = 150 \<rparr>,
            Duration = 100000000, Model = ''mock-model'' \<rparr>, []) \<and>
   fst (ProcessChunks
          (NewMerger \<lparr> Slug = ''prd'', Title = ''PRD'', Schema = ''{}'' \<rparr>
             (MockClient_Complete ''mock-model'' :: (string list, unit) llmClient)
             \<lparr> Strategy = ''no-such-strategy'', Instructions = [], MaxRetries = 2,
               ShowStats = False \<rparr>) [''Some text''] ([], [])) =
     Inr \<lparr> ChunkIndex = 0, ResultContent = ''Some text'', JSONData = ''Mock response'',
           Stats = \<lparr> Content = ''Mock response'',
             TokensUsed = \<lparr> PromptTokens = 100, CompletionTokens = 50, TotalTokens = 150 \<rparr>,
             Duration = 100000000, Model = ''mock-model'' \<rparr>,
           Error = None \<rparr> \<and>
   length (snd (snd (ProcessChunks
          (NewMerger \<lparr> Slug = ''prd'', Title = ''PRD'', Schema = ''{}'' \<rparr>
             (MockClient_Complete ''mock-model'' :: (string list, unit) llmClient)
             \<lparr> Strategy = ''no-such-strategy'', Instructions = [], MaxRetries = 2,
               ShowStats = False \<rparr>) [''Some text''] ([], [])))) = 1"
proof -
  let ?m = "NewMerger \<lparr> Slug = ''prd'', Title = ''PRD'', Schema = ''{}'' \<rparr>
             (MockClient_Complete ''mock-model'' :: (string list, unit) llmClient)
             \<lparr> Strategy = StrategyTwoPass, Instructions = [], MaxRetries = 2, ShowStats = False \<rparr>"
  let ?r = "\<lparr> Content = ''Mock response'',
            TokensUsed = \<lparr> PromptTokens = 100, CompletionTokens = 50, TotalTokens = 150 \<rparr>,
            Duration = 100000000, Model = ''mock-model'' \<rparr>"
  have h: "client ?m [] (createExtractionPrompt ?m ''Some text'') \<lparr> ForceJSON = True \<rparr> = (Inr ?r, [])"
    by (simp add: NewMerger_def MockClient_Complete_def)
  have upd: "?m\<lparr>options := (options ?m)\<lparr>Strategy := ''no-such-strategy''\<rparr>\<rparr> =
      NewMerger \<lparr> Slug = ''prd'', Title = ''PRD'', Schema = ''{}'' \<rparr>
             (MockClient_Complete ''mock-model'' :: (string list, unit) llmClient)
             \<lparr> Strategy = ''no-such-strategy'', Instructions = [], MaxRetries = 2,
               ShowStats = False \<rparr>"
    by (simp add: NewMerger_def)
  from ProcessChunks_single_chunk_any_strategy [OF h, of "''no-such-strategy''" "[]"] h
  show ?thesis
    unfolding upd by simp
qed

text \<open>
  Claim C8, as the code has it. \<open>ProcessChunks\<close> handles a sequence of one chunk before
  it looks at the strategy: with an unknown strategy and one chunk it calls the provider
  once and returns no configuration error.
\<close>

theorem ProcessChunks_unknown_strategy_single_chunk_counterexample:
  "Strategy (options
      (NewMerger \<lparr> Slug = ''prd'', Title = ''PRD'', Schema = ''{}'' \<rparr>
         (MockClient_Complete ''mock-model'' :: (string list, unit) llmClient)
         \<lparr> Strategy = ''bogus'', Instructions = [], MaxRetries = 2, ShowStats = False \<rparr>))
     \<notin> {StrategyIncremental, StrategyTwoPass, StrategyTemplateDriven} \<and>
   fst (ProcessChunks
          (NewMerger \<lparr> Slug = ''prd'', Title = ''PRD'', Schema = ''{}'' \<rparr>
             (MockClient_Complete ''mock-model'' :: (string list, unit) llmClient)
             \<lparr> Strategy = ''bogus'', Instructions = [], MaxRetries = 2, ShowStats = False \<rparr>)
          [''only chunk''] ([], [])) \<noteq> Inl (UnknownMergeStrategy ''bogus'') \<and>
   length (snd (snd (ProcessChunks
          (NewMerger \<lparr> Slug = ''prd'', Title = ''PRD'', Schema = ''{}'' \<rparr>
             (MockClient_Complete ''mock-model'' :: (string list, unit) llmClient)
             \<lparr> Strategy = ''bogus'', Instructions = [], MaxRetries = 2, ShowStats = False \<rparr>)
          [''only chunk''] ([], [])))) = 1"
  by (simp add: ProcessChunks_def processSingleChunk_def Complete_def MockClient_Complete_def
      NewMerger_def StrategyIncremental_def StrategyTwoPass_def StrategyTemplateDriven_def)

text \<open>
  Claim C8, amended. For every strategy value outside the three named strategies and
  every sequence of at least two chunks, \<open>ProcessChunks\<close> fails with the unknown-strategy
  error and leaves the provider's state and the log of calls as they were; the extract
  command's own switch rejects the same value before it builds the merger.
\<close>

theorem ProcessChunks_unknown_strategy_fails_fast:
  assumes "Strategy (options m) \<notin> {StrategyIncremental, StrategyTwoPass, StrategyTemplateDriven}"
    and "2 \<le> length chunks"
  shows "ProcessChunks m chunks w = (Inl (UnknownMergeStrategy (Strategy (options m))), w) \<and>
         (parseMergeStrategy (Strategy (options m)) :: 'e error + string) =
           Inl (UnknownMergeStrategy (Strategy (options m)))"
proof -
  from assms(2) have "length chunks \<noteq> 0" "length chunks \<noteq> 1"
    by auto
  with assms(1) show ?thesis
    by (simp add: ProcessChunks_def parseMergeStrategy_def StrategyIncremental_def
        StrategyTwoPass_def StrategyTemplateDriven_def)
qed

theorem ProcessChunks_unknown_strategy_fails_fast_witness:
  "Strategy (options
      (NewMerger \<lparr> Slug = ''prd'', Title = ''PRD'', Schema = ''{}'' \<rparr>
         (MockClient_Complete ''mock-model'' :: (string list, unit) llmClient)
         \<lparr> Strategy = ''bogus'', Instructions = [], MaxRetries = 2, ShowStats = False \<rparr>))
     \<notin> {StrategyIncremental, StrategyTwoPass, StrategyTemplateDriven} \<and>
   2 \<le> length [''first chunk'', ''second chunk''] \<and>
   ProcessChunks
      (NewMerger \<lparr> Slug = ''prd'', Title = ''PRD'', Schema = ''{}'' \<rparr>
         (MockClient_Complete ''mock-model'' :: (string list, unit) llmClient)
         \<lparr> Strategy = ''bogus'', Instructions = [], MaxRetries = 2, ShowStats = False \<rparr>)
      [''first chunk'', ''second chunk''] ([], []) =
     (Inl (UnknownMergeStrategy ''bogus''), ([], []))"
proof -
  let ?m = "NewMerger \<lparr> Slug = ''prd'', Title = ''PRD'', Schema = ''{}'' \<rparr>
         (MockClient_Complete ''mock-model'' :: (string list, unit) llmClient)
         \<lparr> Strategy = ''bogus'', Instructions = [], MaxRetries = 2, ShowStats = False \<rparr>"
  have h1: "Strategy (options ?m) \<notin> {StrategyIncremental, StrategyTwoPass, StrategyTemplateDriven}"
    by (simp add: NewMerger_def StrategyIncremental_def StrategyTwoPass_def
        StrategyTemplateDriven_def)
  have h2: "2 \<le> length [''first chunk'', ''second chunk'']"
    by simp
  have st: "Strategy (options ?m) = ''bogus''"
    by (simp add: NewMerger_def)
  from ProcessChunks_unknown_strategy_fails_fast [OF h1 h2, of "([], [])"]
  have "ProcessChunks ?m [''first chunk'', ''second chunk''] ([], []) =
          (Inl (UnknownMergeStrategy (Strategy (options ?m))), ([], []))"
    by (rule conjunct1)
  then have "ProcessChunks ?m [''first chunk'', ''second chunk''] ([], []) =
          (Inl (UnknownMergeStrategy ''bogus''), ([], []))"
    by (simp only: st)
  with h1 h2 show ?thesis
    by (intro conjI)
qed

lemma processIncremental_loop_calls:
  fixes m :: "('s, 'e) Merger"
  assumes ok: "\<forall>s p opts. \<exists>resp s'. client m s p opts = (Inr resp, s')"
  shows "i \<le> length chunks \<Longrightarrow>
         \<exists>r s' new. processIncremental_loop m chunks i result (s, calls) =
                       (Inr r, (s', calls @ new)) \<and>
           length new = length chunks - i \<and>
           (\<forall>j<length new. \<exists>prev. fst (new ! j) = createMergePrompt m prev (chunks ! (i + j)))"
proof (induction "length chunks - i" arbitrary: i result s calls)
  case 0
  then have "processIncremental_loop m chunks i result (s, calls) = (Inr result, (s, calls @ []))"
    by (subst processIncremental_loop.simps) simp
  with 0 show ?case
    by (intro exI [of _ result] exI [of _ s] exI [of _ "[]"]) simp
next
  case (Suc n)
  then have lt: "i < length chunks"
    by simp
  let ?p = "createMergePrompt m (JSONData result) (chunks ! i)"
  from ok obtain resp s1 where call: "client m s ?p \<lparr> ForceJSON = True \<rparr> = (Inr resp, s1)"
    by blast
  let ?merged = "\<lparr> ChunkIndex = int i, ResultContent = chunks ! i, JSONData = Content resp,
                   Stats = resp, Error = None \<rparr> :: 'e ChunkResult"
  let ?c = "(?p, \<lparr> ForceJSON = True \<rparr>, Inr resp :: 'e + CompletionResponse)"
  have step: "processIncremental_loop m chunks i result (s, calls) =
              processIncremental_loop m chunks (i + 1) ?merged (s1, calls @ [?c])"
    using lt by (subst processIncremental_loop.simps) (simp add: mergeWithPrevious_ok [OF call])
  from Suc.hyps(2) lt have "n = length chunks - (i + 1)" "i + 1 \<le> length chunks"
    by simp_all
  from Suc.hyps(1) [OF this, of ?merged s1 "calls @ [?c]"] obtain r s' new where
    ih: "processIncremental_loop m chunks (i + 1) ?merged (s1, calls @ [?c]) =
           (Inr r, (s', (calls @ [?c]) @ new))"
      "length new = length chunks - (i + 1)"
      "\<forall>j<length new. \<exists>prev. fst (new ! j) = createMergePrompt m prev (chunks ! (i + 1 + j))"
    by blast
  have 1: "processIncremental_loop m chunks i result (s, calls) = (Inr r, (s', calls @ (?c # new)))"
    using step ih(1) by simp
  have 2: "length (?c # new) = length chunks - i"
    using ih(2) lt by simp
  have 3: "\<forall>j<length (?c # new). \<exists>prev. fst ((?c # new) ! j) = createMergePrompt m prev (chunks ! (i + j))"
  proof (intro allI impI)
    fix j
    assume "j < length (?c # new)"
    show "\<exists>prev. fst ((?c # new) ! j) = createMergePrompt m prev (chunks ! (i + j))"
    proof (cases j)
      case 0
      then show ?thesis by auto
    next
      case (Suc j')
      with \<open>j < length (?c # new)\<close> ih(3) show ?thesis by simp
    qed
  qed
  from 1 2 3 show ?case
    by blast
qed

text \<open>
  Claim C6. Under the incremental strategy, with a provider whose \<open>Complete\<close> always
  succeeds, \<open>ProcessChunks\<close> on \<open>n \<ge> 1\<close> chunks succeeds and issues exactly \<open>n\<close>
  calls: the extraction prompt of chunk \<open>0\<close>, then for every later chunk one merge
  prompt holding that chunk.
\<close>

theorem ProcessChunks_incremental_call_count:
  fixes m :: "('s, 'e) Merger"
  assumes "Strategy (options m) = StrategyIncremental" and "chunks \<noteq> []"
    and ok: "\<forall>s p opts. \<exists>resp s'. client m s p opts = (Inr resp, s')"
  shows "\<exists>r s' new. ProcessChunks m chunks (s, calls) = (Inr r, (s', calls @ new)) \<and>
           length new = length chunks \<and>
           fst (new ! 0) = createExtractionPrompt m (chunks ! 0) \<and>
           (\<forall>i. 0 < i \<and> i < length chunks \<longrightarrow>
              (\<exists>prev. fst (new ! i) = createMergePrompt m prev (chunks ! i)))"
proof -
  let ?p = "createExtractionPrompt m (chunks ! 0)"
  from ok obtain resp s1 where call: "client m s ?p \<lparr> ForceJSON = True \<rparr> = (Inr resp, s1)"
    by blast
  let ?first = "\<lparr> ChunkIndex = 0, ResultContent = chunks ! 0, JSONData = Content resp,
                  Stats = resp, Error = None \<rparr> :: 'e ChunkResult"
  let ?c = "(?p, \<lparr> ForceJSON = True \<rparr>, Inr resp :: 'e + CompletionResponse)"
  have single: "processSingleChunk m (chunks ! 0) 0 (s, calls) = (Inr ?first, (s1, calls @ [?c]))"
    by (rule processSingleChunk_ok [OF call])
  show ?thesis
  proof (cases "length chunks = 1")
    case True
    then have "ProcessChunks m chunks (s, calls) = (Inr ?first, (s1, calls @ [?c]))"
      by (simp add: ProcessChunks_def single)
    with True show ?thesis
      by (intro exI [of _ ?first] exI [of _ s1] exI [of _ "[?c]"]) simp
  next
    case False
    with assms(2) have len: "1 \<le> length chunks" "length chunks \<noteq> 0" "length chunks \<noteq> 1"
      by (cases chunks; simp)+
    from processIncremental_loop_calls [OF ok len(1), of ?first s1 "calls @ [?c]"]
    obtain r s' new where
      lp: "processIncremental_loop m chunks 1 ?first (s1, calls @ [?c]) =
             (Inr r, (s', (calls @ [?c]) @ new))"
        "length new = length chunks - 1"
        "\<forall>j<length new. \<exists>prev. fst (new ! j) = createMergePrompt m prev (chunks ! (1 + j))"
      by blast
    have "ProcessChunks m chunks (s, calls) = (Inr r, (s', calls @ (?c # new)))"
      using len(2,3) assms(1) lp(1) by (simp add: ProcessChunks_def processIncremental_def single)
    moreover have "length (?c # new) = length chunks"
      using lp(2) len(1) by simp
    moreover have "fst ((?c # new) ! 0) = ?p"
      by simp
    moreover have "\<forall>i. 0 < i \<and> i < length chunks \<longrightarrow>
                     (\<exists>prev. fst ((?c # new) ! i) = createMergePrompt m prev (chunks ! i))"
    proof (intro allI impI)
      fix i
      assume i: "0 < i \<and> i < length chunks"
      then obtain j where j: "i = Suc j"
        by (cases i) auto
      with i lp(2) have "j < length new"
        by simp
      with lp(3) j show "\<exists>prev. fst ((?c # new) ! i) = createMergePrompt m prev (chunks ! i)"
        by auto
    qed
    ultimately show ?thesis
      by blast
  qed
qed

theorem ProcessChunks_incremental_call_count_witness:
  "Strategy (options
      (NewMerger \<lparr> Slug = ''prd'', Title = ''PRD'', Schema = ''{}'' \<rparr>
         (MockClient_Complete ''mock-model'' :: (string list, unit) llmClient)
         \<lparr> Strategy = StrategyIncremental, Instructions = [], MaxRetries = 2,
           ShowStats = False \<rparr>)) = StrategyIncremental \<and>
   [''one'', ''two'', ''three''] \<noteq> [] \<and>
   (\<forall>s p opts. \<exists>resp s'.
      client (NewMerger \<lparr> Slug = ''prd'', Title = ''PRD'', Schema = ''{}'' \<rparr>
         (MockClient_Complete ''mock-model'' :: (string list, unit) llmClient)
         \<lparr> Strategy = StrategyIncremental, Instructions = [], MaxRetries = 2,
           ShowStats = False \<rparr>) s p opts = (Inr resp, s')) \<and>
   length (snd (snd (ProcessChunks
      (NewMerger \<lparr> Slug = ''prd'', Title = ''PRD'', Schema = ''{}'' \<rparr>
         (MockClient_Complete ''mock-model'' :: (string list, unit) llmClient)
         \<lparr> Strategy = StrategyIncremental, Instructions = [], MaxRetries = 2,
           ShowStats = False \<rparr>) [''one'', ''two'', ''three''] ([], [])))) = 3"
proof -
  let ?m = "NewMerger \<lparr> Slug = ''prd'', Title = ''PRD'', Schema = ''{}'' \<rparr>
         (MockClient_Complete ''mock-model'' :: (string list, unit) llmClient)
         \<lparr> Strategy = StrategyIncremental, Instructions = [], MaxRetries = 2,
           ShowStats = False \<rparr>"
  have h1: "Strategy (options ?m) = StrategyIncremental"
    by (simp add: NewMerger_def)
  have h2: "[''one'', ''two'', ''three''] \<noteq> []"
    by simp
  have h3: "\<forall>s p opts. \<exists>resp s'. client ?m s p opts = (Inr resp, s')"
    using MockClient_Complete_ok [of "''mock-model''"] by (simp add: NewMerger_def)
  from ProcessChunks_incremental_call_count [OF h1 h2 h3, of "[]" "[]"] obtain r s' new where
    "ProcessChunks ?m [''one'', ''two'', ''three''] ([], []) = (Inr r, (s', [] @ new))"
    "length new = length [''one'', ''two'', ''three'']"
    by blast
  with h1 h2 h3 show ?thesis
    by simp
qed

lemma processTemplateDriven_loop_eq:
  "processTemplateDriven_loop m i rs chunks w = processTwoPass_loop m i rs chunks w"
proof (induction chunks arbitrary: i rs w)
  case Nil
  show ?case by simp
next
  case (Cons chunk chunks)
  obtain r w' where "processSingleChunk m chunk (int i) w = (r, w')"
    by (metis surj_pair)
  then show ?case
    by (cases r) (simp_all add: Cons.IH)
qed

lemma processTemplateDriven_eq: "processTemplateDriven m chunks w = processTwoPass m chunks w"
  unfolding processTemplateDriven_def processTwoPass_def processTemplateDriven_loop_eq
    mergeByTemplate_def ..

lemma processTwoPass_Strategy:
  "processTwoPass (m\<lparr>options := (options m)\<lparr>Strategy := st\<rparr>\<rparr>) chunks w = processTwoPass m chunks w"
proof -
  have "processTwoPass_loop (m\<lparr>options := (options m)\<lparr>Strategy := st\<rparr>\<rparr>) i rs cs w' =
        processTwoPass_loop m i rs cs w'" for i rs cs w'
  proof (induction cs arbitrary: i rs w')
    case Nil
    show ?case by simp
  next
    case (Cons c cs)
    obtain r w'' where "processSingleChunk m c (int i) w' = (r, w'')"
      by (metis surj_pair)
    then show ?case
      by (cases r) (simp_all add: Cons.IH)
  qed
  then show ?thesis
    unfolding processTwoPass_def by (simp add: mergeAllResults_Strategy cong: prod.case_cong sum.case_cong)
qed

lemma ProcessChunks_template_eq_twopass:
  "ProcessChunks (m\<lparr>options := (options m)\<lparr>Strategy := StrategyTemplateDriven\<rparr>\<rparr>) chunks w =
   ProcessChunks (m\<lparr>options := (options m)\<lparr>Strategy := StrategyTwoPass\<rparr>\<rparr>) chunks w"
  by (simp add: ProcessChunks_def processTemplateDriven_eq processTwoPass_Strategy
      StrategyIncremental_def StrategyTwoPass_def StrategyTemplateDriven_def)

lemma processTwoPass_loop_calls:
  fixes m :: "('s, 'e) Merger"
  assumes ok: "\<forall>s p opts. \<exists>resp s'. client m s p opts = (Inr resp, s')"
  shows "\<exists>rs' s' new. processTwoPass_loop m i rs chunks (s, calls) =
                         (Inr (rs @ rs'), (s', calls @ new)) \<and>
           length rs' = length chunks \<and> length new = length chunks \<and>
           (\<forall>j<length chunks. fst (new ! j) = createExtractionPrompt m (chunks ! j))"
proof (induction chunks arbitrary: i rs s calls)
  case Nil
  show ?case
    by (intro exI [of _ "[]"] exI [of _ s]) simp
next
  case (Cons chunk chunks)
  let ?p = "createExtractionPrompt m chunk"
  from ok obtain resp s1 where call: "client m s ?p \<lparr> ForceJSON = True \<rparr> = (Inr resp, s1)"
    by blast
  let ?res = "\<lparr> ChunkIndex = int i, ResultContent = chunk, JSONData = Content resp,
                Stats = resp, Error = None \<rparr> :: 'e ChunkResult"
  let ?c = "(?p, \<lparr> ForceJSON = True \<rparr>, Inr resp :: 'e + CompletionResponse)"
  from Cons.IH [of "i + 1" "rs @ [?res]" s1 "calls @ [?c]"] obtain rs' s' new where
    ih: "processTwoPass_loop m (i + 1) (rs @ [?res]) chunks (s1, calls @ [?c]) =
           (Inr ((rs @ [?res]) @ rs'), (s', (calls @ [?c]) @ new))"
      "length rs' = length chunks" "length new = length chunks"
      "\<forall>j<length chunks. fst (new ! j) = createExtractionPrompt m (chunks ! j)"
    by blast
  have 1: "processTwoPass_loop m i rs (chunk # chunks) (s, calls) =
             (Inr (rs @ (?res # rs')), (s', calls @ (?c # new)))"
    using ih(1) by (simp add: processSingleChunk_ok [OF call])
  have 2: "\<forall>j<length (chunk # chunks).
             fst ((?c # new) ! j) = createExtractionPrompt m ((chunk # chunks) ! j)"
  proof (intro allI impI)
    fix j
    assume "j < length (chunk # chunks)"
    with ih(4) show "fst ((?c # new) ! j) = createExtractionPrompt m ((chunk # chunks) ! j)"
      by (cases j) simp_all
  qed
  from 1 2 ih(2,3) show ?case
    by (intro exI [of _ "?res # rs'"] exI [of _ s'] exI [of _ "?c # new"]) simp
qed

text \<open>
  Claim C7. For every chunk sequence, every provider and every state of it,
  \<open>ProcessChunks\<close> under the template-driven strategy returns the same result, leaves
  the same provider state and issues the same calls as under the two-pass strategy; and
  with more than one chunk and a provider that always succeeds these are the \<open>n\<close>
  extraction prompts of the chunks, in order, followed by one consolidation prompt.
  (The log lines the two functions write differ and are not part of the model.)
\<close>

theorem ProcessChunks_template_driven_as_two_pass:
  fixes m :: "('s, 'e) Merger"
  shows "ProcessChunks (m\<lparr>options := (options m)\<lparr>Strategy := StrategyTemplateDriven\<rparr>\<rparr>) chunks (s, calls) =
     ProcessChunks (m\<lparr>options := (options m)\<lparr>Strategy := StrategyTwoPass\<rparr>\<rparr>) chunks (s, calls) \<and>
   (1 < length chunks \<and> (\<forall>s p opts. \<exists>resp s'. client m s p opts = (Inr resp, s')) \<longrightarrow>
      (\<exists>r s' new jsons.
         ProcessChunks (m\<lparr>options := (options m)\<lparr>Strategy := StrategyTemplateDriven\<rparr>\<rparr>) chunks
           (s, calls) = (Inr r, (s', calls @ new)) \<and>
         length new = length chunks + 1 \<and>
         (\<forall>i<length chunks. fst (new ! i) = createExtractionPrompt m (chunks ! i)) \<and>
         length jsons = length chunks \<and>
         fst (new ! length chunks) = createConsolidationPrompt m jsons))"
proof (intro conjI impI)
  show "ProcessChunks (m\<lparr>options := (options m)\<lparr>Strategy := StrategyTemplateDriven\<rparr>\<rparr>) chunks (s, calls) =
     ProcessChunks (m\<lparr>options := (options m)\<lparr>Strategy := StrategyTwoPass\<rparr>\<rparr>) chunks (s, calls)"
    by (rule ProcessChunks_template_eq_twopass)
next
  assume h: "1 < length chunks \<and> (\<forall>s p opts. \<exists>resp s'. client m s p opts = (Inr resp, s'))"
  then have ok: "\<forall>s p opts. \<exists>resp s'. client m s p opts = (Inr resp, s')" and len: "1 < length chunks"
    by simp_all
  let ?m = "m\<lparr>options := (options m)\<lparr>Strategy := StrategyTemplateDriven\<rparr>\<rparr>"
  from processTwoPass_loop_calls [OF ok, of 0 "[]" chunks s calls] obtain rs s1 new where
    lp: "processTwoPass_loop m 0 [] chunks (s, calls) = (Inr rs, (s1, calls @ new))"
      "length rs = length chunks" "length new = length chunks"
      "\<forall>j<length chunks. fst (new ! j) = createExtractionPrompt m (chunks ! j)"
    by auto
  let ?p = "createConsolidationPrompt m (map JSONData rs)"
  from ok obtain resp s2 where call: "client m s1 ?p \<lparr> ForceJSON = True \<rparr> = (Inr resp, s2)"
    by blast
  let ?r = "\<lparr> ChunkIndex = - 1, ResultContent = ''consolidated'', JSONData = Content resp,
              Stats = resp, Error = None \<rparr> :: 'e ChunkResult"
  let ?c = "(?p, \<lparr> ForceJSON = True \<rparr>, Inr resp :: 'e + CompletionResponse)"
  have mg: "mergeAllResults m rs (s1, calls @ new) = (Inr ?r, (s2, (calls @ new) @ [?c]))"
    using len lp(2) call by (simp add: mergeAllResults_def Complete_def)
  have tp: "processTwoPass m chunks (s, calls) = (Inr ?r, (s2, calls @ (new @ [?c])))"
    using lp(1) mg by (simp add: processTwoPass_def)
  from len have "length chunks \<noteq> 0" "length chunks \<noteq> 1"
    by auto
  then have "ProcessChunks ?m chunks (s, calls) = processTwoPass m chunks (s, calls)"
    by (simp add: ProcessChunks_def processTemplateDriven_eq processTwoPass_Strategy
        StrategyIncremental_def StrategyTwoPass_def StrategyTemplateDriven_def)
  with tp have 1: "ProcessChunks ?m chunks (s, calls) = (Inr ?r, (s2, calls @ (new @ [?c])))"
    by simp
  have 2: "length (new @ [?c]) = length chunks + 1"
    using lp(3) by simp
  have 3: "\<forall>i<length chunks. fst ((new @ [?c]) ! i) = createExtractionPrompt m (chunks ! i)"
    using lp(3,4) by (simp add: nth_append)
  have 4: "fst ((new @ [?c]) ! length chunks) = ?p"
    using lp(3) by (simp add: nth_append)
  have 5: "length (map JSONData rs) = length chunks"
    using lp(2) by simp
  from 1 2 3 4 5
  show "\<exists>r s' new jsons. ProcessChunks ?m chunks (s, calls) = (Inr r, (s', calls @ new)) \<and>
         length new = length chunks + 1 \<and>
         (\<forall>i<length chunks. fst (new ! i) = createExtractionPrompt m (chunks ! i)) \<and>
         length jsons = length chunks \<and>
         fst (new ! length chunks) = createConsolidationPrompt m jsons"
    by blast
qed

theorem ProcessChunks_template_driven_as_two_pass_witness:
  "1 < length [''one'', ''two''] \<and>
   (\<forall>s p opts. \<exists>resp s'.
      client (NewMerger \<lparr> Slug = ''prd'', Title = ''PRD'', Schema = ''{}'' \<rparr>
         (MockClient_Complete ''mock-model'' :: (string list, unit) llmClient)
         \<lparr> Strategy = StrategyTemplateDriven, Instructions = [], MaxRetries = 2,
           ShowStats = False \<rparr>) s p opts = (Inr resp, s')) \<and>
   ProcessChunks
      (NewMerger \<lparr> Slug = ''prd'', Title = ''PRD'', Schema = ''{}'' \<rparr>
         (MockClient_Complete ''mock-model'' :: (string list, unit) llmClient)
         \<lparr> Strategy = StrategyTemplateDriven, Instructions = [], MaxRetries = 2,
           ShowStats = False \<rparr>) [''one'', ''two''] ([], []) =
   ProcessChunks
      (NewMerger \<lparr> Slug = ''prd'', Title = ''PRD'', Schema = ''{}'' \<rparr>
         (MockClient_Complete ''mock-model'' :: (string list, unit) llmClient)
         \<lparr> Strategy = StrategyTwoPass, Instructions = [], MaxRetries = 2,
           ShowStats = False \<rparr>) [''one'', ''two''] ([], []) \<and>
   length (snd (snd (ProcessChunks
      (NewMerger \<lparr> Slug = ''prd'', Title = ''PRD'', Schema = ''{}'' \<rparr>
         (MockClient_Complete ''mock-model'' :: (string list, unit) llmClient)
         \<lparr> Strategy = StrategyTemplateDriven, Instructions = [], MaxRetries = 2,
           ShowStats = False \<rparr>) [''one'', ''two''] ([], [])))) = 3"
proof -
  let ?m = "NewMerger \<lparr> Slug = ''prd'', Title = ''PRD'', Schema = ''{}'' \<rparr>
         (MockClient_Complete ''mock-model'' :: (string list, unit) llmClient)
         \<lparr> Strategy = StrategyTemplateDriven, Instructions = [], MaxRetries = 2,
           ShowStats = False \<rparr>"
  let ?m2 = "NewMerger \<lparr> Slug = ''prd'', Title = ''PRD'', Schema = ''{}'' \<rparr>
         (MockClient_Complete ''mock-model'' :: (string list, unit) llmClient)
         \<lparr> Strategy = StrategyTwoPass, Instructions = [], MaxRetries = 2,
           ShowStats = False \<rparr>"
  have h1: "1 < length [''one'', ''two'']"
    by simp
  have h2: "\<forall>s p opts. \<exists>resp s'. client ?m s p opts = (Inr resp, s')"
    using MockClient_Complete_ok [of "''mock-model''"] by (simp add: NewMerger_def)
  have u1: "?m\<lparr>options := (options ?m)\<lparr>Strategy := StrategyTemplateDriven\<rparr>\<rparr> = ?m"
    by (simp add: NewMerger_def)
  have u2: "?m\<lparr>options := (options ?m)\<lparr>Strategy := StrategyTwoPass\<rparr>\<rparr> = ?m2"
    by (simp add: NewMerger_def)
  from ProcessChunks_template_driven_as_two_pass [of ?m "[''one'', ''two'']" "[]" "[]"] h1 h2
  obtain r s' new where
    eq: "ProcessChunks ?m [''one'', ''two''] ([], []) = ProcessChunks ?m2 [''one'', ''two''] ([], [])"
    and run: "ProcessChunks ?m [''one'', ''two''] ([], []) = (Inr r, (s', [] @ new))"
    and len: "length new = length [''one'', ''two''] + 1"
    unfolding u1 u2 by blast
  have "length (snd (snd (ProcessChunks ?m [''one'', ''two''] ([], [])))) = 3"
    by (simp only: run) (simp add: len)
  with h1 h2 eq show ?thesis
    by (intro conjI)
qed











section \<open>Properties of the repair loop\<close>

lemma ValidateAndRetry_loop_exhausts:
  fixes cl :: "('s, 'e) llmClient"
  assumes bad: "\<forall>s p opts. \<exists>resp s'. cl s p opts = (Inr resp, s') \<and>
                  \<not> Valid (Validate unmarshal v (Content resp))"
  shows "attempt \<le> k + 1 \<Longrightarrow> result = Validate unmarshal v data \<Longrightarrow> \<not> Valid result \<Longrightarrow>
         \<exists>data' s' new.
           ValidateAndRetry_loop unmarshal v cl input k attempt data result (s, calls) =
             ((Some data', Some (Validate unmarshal v data'), Some (ValidationFailedAfter k)),
              (s', calls @ new)) \<and>
           int (length new) = k + 1 - attempt \<and>
           \<not> Valid (Validate unmarshal v data') \<and>
           (new = [] \<longrightarrow> data' = data) \<and>
           (new \<noteq> [] \<longrightarrow> (\<exists>resp. snd (snd (last new)) = Inr resp \<and> data' = Content resp))"
proof (induction "nat (k + 1 - attempt)" arbitrary: attempt data result s calls)
  case 0
  then have "\<not> attempt \<le> k"
    by simp
  then have "ValidateAndRetry_loop unmarshal v cl input k attempt data result (s, calls) =
               ((Some data, Some result, Some (ValidationFailedAfter k)), (s, calls @ []))"
    by (subst ValidateAndRetry_loop.simps) simp
  with 0 show ?case
    by (intro exI [of _ data] exI [of _ s] exI [of _ "[]"]) simp
next
  case (Suc n)
  then have le: "attempt \<le> k"
    by simp
  let ?p = "createRepairPrompt input data result"
  from bad obtain resp s1 where
    call: "cl s ?p \<lparr> ForceJSON = True \<rparr> = (Inr resp, s1)"
      "\<not> Valid (Validate unmarshal v (Content resp))"
    by blast
  let ?c = "(?p, \<lparr> ForceJSON = True \<rparr>, Inr resp :: 'e + CompletionResponse)"
  have step: "ValidateAndRetry_loop unmarshal v cl input k attempt data result (s, calls) =
              ValidateAndRetry_loop unmarshal v cl input k (attempt + 1) (Content resp)
                (Validate unmarshal v (Content resp)) (s1, calls @ [?c])"
    using le call by (subst ValidateAndRetry_loop.simps) (simp add: Complete_def Let_def)
  from Suc.hyps(2) le have "n = nat (k + 1 - (attempt + 1))" "attempt + 1 \<le> k + 1"
    by simp_all
  from Suc.hyps(1) [OF this refl call(2), of s1 "calls @ [?c]"] obtain data' s' new where
    ih: "ValidateAndRetry_loop unmarshal v cl input k (attempt + 1) (Content resp)
           (Validate unmarshal v (Content resp)) (s1, calls @ [?c]) =
           ((Some data', Some (Validate unmarshal v data'), Some (ValidationFailedAfter k)),
            (s', (calls @ [?c]) @ new))"
      "int (length new) = k + 1 - (attempt + 1)"
      "\<not> Valid (Validate unmarshal v data')"
      "new = [] \<longrightarrow> data' = Content resp"
      "new \<noteq> [] \<longrightarrow> (\<exists>resp. snd (snd (last new)) = Inr resp \<and> data' = Content resp)"
    by blast
  have 1: "ValidateAndRetry_loop unmarshal v cl input k attempt data result (s, calls) =
           ((Some data', Some (Validate unmarshal v data'), Some (ValidationFailedAfter k)),
            (s', calls @ (?c # new)))"
    using step ih(1) by simp
  have 2: "int (length (?c # new)) = k + 1 - attempt"
    using ih(2) by simp
  have 3: "\<exists>resp. snd (snd (last (?c # new))) = Inr resp \<and> data' = Content resp"
    using ih(4,5) by (cases "new = []") auto
  from 1 2 3 ih(3) show ?case
    by (intro exI [of _ data'] exI [of _ s'] exI [of _ "?c # new"]) simp
qed

text \<open>
  Claim C3. For every prompt and every retry bound \<open>k \<ge> 0\<close>, if every call of the
  provider succeeds with a payload that fails validation, \<open>ValidateAndRetry\<close> issues
  exactly \<open>k + 1\<close> calls, the first with the prompt itself, and returns the payload of
  the last call, the validation result of that payload, which is invalid, and the error
  that says validation failed after \<open>k\<close> retries.
\<close>

theorem ValidateAndRetry_exhausts_after_all_retries:
  fixes cl :: "('s, 'e) llmClient"
  assumes "0 \<le> k"
    and bad: "\<forall>s p opts. \<exists>resp s'. cl s p opts = (Inr resp, s') \<and>
                \<not> Valid (Validate unmarshal v (Content resp))"
  shows "\<exists>data resp s' new.
           ValidateAndRetry unmarshal v cl input k (s, calls) =
             ((Some data, Some (Validate unmarshal v data), Some (ValidationFailedAfter k)),
              (s', calls @ new)) \<and>
           int (length new) = k + 1 \<and> fst (new ! 0) = input \<and>
           snd (snd (last new)) = Inr resp \<and> data = Content resp \<and>
           \<not> Valid (Validate unmarshal v data)"
proof -
  from bad obtain resp s1 where
    call: "cl s input \<lparr> ForceJSON = True \<rparr> = (Inr resp, s1)"
      "\<not> Valid (Validate unmarshal v (Content resp))"
    by blast
  let ?c = "(input, \<lparr> ForceJSON = True \<rparr>, Inr resp :: 'e + CompletionResponse)"
  have start: "ValidateAndRetry unmarshal v cl input k (s, calls) =
               ValidateAndRetry_loop unmarshal v cl input k 1 (Content resp)
                 (Validate unmarshal v (Content resp)) (s1, calls @ [?c])"
    using call by (simp add: ValidateAndRetry_def Complete_def Let_def)
  from assms(1) have "1 \<le> k + 1"
    by simp
  from ValidateAndRetry_loop_exhausts [where data = "Content resp" and input = input and s = s1
      and calls = "calls @ [?c]", OF bad this refl call(2)]
  obtain data' s' new where
    lp: "ValidateAndRetry_loop unmarshal v cl input k 1 (Content resp)
           (Validate unmarshal v (Content resp)) (s1, calls @ [?c]) =
           ((Some data', Some (Validate unmarshal v data'), Some (ValidationFailedAfter k)),
            (s', (calls @ [?c]) @ new))"
      "int (length new) = k + 1 - 1"
      "\<not> Valid (Validate unmarshal v data')"
      "new = [] \<longrightarrow> data' = Content resp"
      "new \<noteq> [] \<longrightarrow> (\<exists>resp. snd (snd (last new)) = Inr resp \<and> data' = Content resp)"
    by blast
  have 1: "ValidateAndRetry unmarshal v cl input k (s, calls) =
           ((Some data', Some (Validate unmarshal v data'), Some (ValidationFailedAfter k)),
            (s', calls @ (?c # new)))"
    using start lp(1) by simp
  have 2: "int (length (?c # new)) = k + 1"
    using lp(2) by simp
  obtain resp' where 3: "snd (snd (last (?c # new))) = Inr resp'" "data' = Content resp'"
    using lp(4,5) by (cases "new = []") auto
  have 4: "fst ((?c # new) ! 0) = input"
    by simp
  from 1 2 3 4 lp(3) show ?thesis
    by blast
qed

theorem ValidateAndRetry_exhausts_after_all_retries_witness:
  "(0::int) \<le> 2 \<and>
   (\<forall>s p opts. \<exists>resp s'.
      (MockClient_Complete ''mock-model'' :: (string list, unit) llmClient) s p opts = (Inr resp, s') \<and>
      \<not> Valid (Validate (\<lambda>data. Inl ''invalid character'')
                 (\<lparr> schema = (\<lambda>j. None), specData = ''{}'' \<rparr> :: (unit, unit) Validator)
                 (Content resp))) \<and>
   snd (snd (fst (ValidateAndRetry (\<lambda>data. Inl ''invalid character'')
      (\<lparr> schema = (\<lambda>j. None), specData = ''{}'' \<rparr> :: (unit, unit) Validator)
      (MockClient_Complete ''mock-model'' :: (string list, unit) llmClient)
      ''Extract the data'' 2 ([], [])))) = Some (ValidationFailedAfter 2) \<and>
   fst (fst (ValidateAndRetry (\<lambda>data. Inl ''invalid character'')
      (\<lparr> schema = (\<lambda>j. None), specData = ''{}'' \<rparr> :: (unit, unit) Validator)
      (MockClient_Complete ''mock-model'' :: (string list, unit) llmClient)
      ''Extract the data'' 2 ([], []))) \<noteq> None \<and>
   length (snd (snd (ValidateAndRetry (\<lambda>data. Inl ''invalid character'')
      (\<lparr> schema = (\<lambda>j. None), specData = ''{}'' \<rparr> :: (unit, unit) Validator)
      (MockClient_Complete ''mock-model'' :: (string list, unit) llmClient)
      ''Extract the data'' 2 ([], [])))) = 3"
proof -
  let ?u = "(\<lambda>data. Inl ''invalid character'') :: string \<Rightarrow> string + unit"
  let ?v = "\<lparr> schema = (\<lambda>j. None), specData = ''{}'' \<rparr> :: (unit, unit) Validator"
  let ?cl = "MockClient_Complete ''mock-model'' :: (string list, unit) llmClient"
  have h1: "(0::int) \<le> 2"
    by simp
  have h2: "\<forall>s p opts. \<exists>resp s'. ?cl s p opts = (Inr resp, s') \<and>
              \<not> Valid (Validate ?u ?v (Content resp))"
    by (simp add: MockClient_Complete_def Validate_def Let_def)
  from ValidateAndRetry_exhausts_after_all_retries [OF h1 h2, of "''Extract the data''" "[]" "[]"]
  obtain data s' new where
    "ValidateAndRetry ?u ?v ?cl ''Extract the data'' 2 ([], []) =
       ((Some data, Some (Validate ?u ?v data), Some (ValidationFailedAfter 2)), (s', [] @ new))"
    "int (length new) = 2 + 1"
    by blast
  with h1 h2 show ?thesis
    by simp
qed

end
